theory Spec2Isabelle
  imports Complex_Main
begin

section \<open>Python values used by the program\<close>

text \<open>
  Python integers are unbounded: they are \<^typ>\<open>int\<close>. A list of lists is
  \<^typ>\<open>int list list\<close>. The only exception the program can raise on integer grids is
  \<open>IndexError\<close>; every function that subscripts a sequence returns \<open>error + 'a\<close>.
  The values returned by the solver are floats; they are only read through \<open>abs\<close> and
  compared with \<open>0.5\<close>, both exact, and are modelled as \<^typ>\<open>real\<close>.
\<close>

datatype error = IndexError

text \<open>\<open>xs[i]\<close>: a negative index counts from the end, an index out of range raises.\<close>

definition py_index :: "'a list \<Rightarrow> int \<Rightarrow> error + 'a" where
  "py_index xs i =
     (let len = int (length xs); j = (if i < 0 then len + i else i)
      in if 0 \<le> j \<and> j < len then Inr (xs ! nat j) else Inl IndexError)"

text \<open>\<open>xs[i] = v\<close>, with the same index rules.\<close>

definition py_setitem :: "'a list \<Rightarrow> int \<Rightarrow> 'a \<Rightarrow> error + 'a list" where
  "py_setitem xs i v =
     (let len = int (length xs); j = (if i < 0 then len + i else i)
      in if 0 \<le> j \<and> j < len then Inr (xs[nat j := v]) else Inl IndexError)"

text \<open>\<open>range(a, b, s)\<close> for a positive step \<open>s\<close>.\<close>

definition py_range :: "int \<Rightarrow> int \<Rightarrow> int \<Rightarrow> int list" where
  "py_range a b s = map (\<lambda>k. a + s * k) [0 .. (b - a + s - 1) div s - 1]"

text \<open>
  A \<open>for\<close> loop whose body updates a state and may raise: the first exception ends the
  loop.
\<close>

fun for_each :: "'a list \<Rightarrow> ('a \<Rightarrow> 's \<Rightarrow> error + 's) \<Rightarrow> 's \<Rightarrow> error + 's" where
  "for_each [] body s = Inr s"
| "for_each (k # ks) body s =
     (case body k s of Inl e \<Rightarrow> Inl e | Inr s' \<Rightarrow> for_each ks body s')"

text \<open>
  A generator expression or list comprehension \<open>f(a) for a in as\<close> whose element
  expression may raise.
\<close>

fun collect :: "('a \<Rightarrow> error + 'b) \<Rightarrow> 'a list \<Rightarrow> error + 'b list" where
  "collect f [] = Inr []"
| "collect f (a # as) =
     (case f a of Inl e \<Rightarrow> Inl e
      | Inr b \<Rightarrow> (case collect f as of Inl e \<Rightarrow> Inl e | Inr bs \<Rightarrow> Inr (b # bs)))"

section \<open>The solver interface\<close>

text \<open>
  The program talks to the external solver through \<open>addBinaries\<close>, \<open>addConstr\<close>,
  \<open>run\<close>, \<open>getModelStatus\<close> and \<open>val\<close>. The model handed to the solver is the number
  of binary variables created and the list of constraints added, in the order of the
  calls. A variable is its column number. Every constraint of the program has the form
  \<open>sum of variables == 1\<close>.
\<close>

datatype linear_eq = SumEq (lhs: "nat list") (rhs: int)

record highs =
  num_binaries :: nat
  constrs :: "linear_eq list"

definition Highs :: highs where
  "Highs = \<lparr>num_binaries = 0, constrs = []\<rparr>"

definition addBinaries :: "int \<Rightarrow> highs \<Rightarrow> nat list \<times> highs" where
  "addBinaries k h =
     ([num_binaries h ..< num_binaries h + nat k],
      h\<lparr>num_binaries := num_binaries h + nat k\<rparr>)"

definition addConstr :: "linear_eq \<Rightarrow> highs \<Rightarrow> highs" where
  "addConstr e h = h\<lparr>constrs := constrs h @ [e]\<rparr>"

text \<open>
  The status reported by the solver. The program names \<open>kOptimal\<close> only; the other
  members are those of the solver library's enumeration.
\<close>

datatype HighsModelStatus =
    kNotset | kLoadError | kModelError | kPresolveError | kSolveError | kPostsolveError
  | kModelEmpty | kOptimal | kInfeasible | kUnboundedOrInfeasible | kUnbounded
  | kObjectiveBound | kObjectiveTarget | kTimeLimit | kIterationLimit | kUnknown
  | kSolutionLimit | kInterrupt | kMemoryLimit

text \<open>
  What a value assignment has to do to satisfy a constraint: the sum of the values of its
  variables equals its right-hand side.
\<close>

definition holds :: "(nat \<Rightarrow> real) \<Rightarrow> linear_eq \<Rightarrow> bool" where
  "holds val e \<longleftrightarrow> sum_list (map val (lhs e)) = of_int (rhs e)"

section \<open>\<open>solve_sudoku\<close>\<close>

definition n :: int where
  "n = 9"

definition block :: int where
  "block = 3"

definition "values" :: "int list" where
  "values = py_range 1 (n + 1) 1"

definition rows :: "int list" where
  "rows = py_range 0 n 1"

definition cols :: "int list" where
  "cols = py_range 0 n 1"

definition num_vars :: int where
  "num_vars = n * n * n"

definition var_index :: "int \<Rightarrow> int \<Rightarrow> int \<Rightarrow> int" where
  "var_index r c v = r * n * n + c * n + (v - 1)"

text \<open>Constraint 1: each cell has exactly one value.\<close>

definition add_cell_constrs :: "nat list \<Rightarrow> highs \<Rightarrow> error + highs" where
  "add_cell_constrs x =
     for_each rows (\<lambda>r. for_each cols (\<lambda>c h.
       case collect (\<lambda>v. py_index x (var_index r c v)) values of
         Inl e \<Rightarrow> Inl e
       | Inr xs \<Rightarrow> Inr (addConstr (SumEq xs 1) h)))"

text \<open>Constraint 2: each value appears once per row.\<close>

definition add_row_constrs :: "nat list \<Rightarrow> highs \<Rightarrow> error + highs" where
  "add_row_constrs x =
     for_each rows (\<lambda>r. for_each values (\<lambda>v h.
       case collect (\<lambda>c. py_index x (var_index r c v)) cols of
         Inl e \<Rightarrow> Inl e
       | Inr xs \<Rightarrow> Inr (addConstr (SumEq xs 1) h)))"

text \<open>Constraint 3: each value appears once per column.\<close>

definition add_col_constrs :: "nat list \<Rightarrow> highs \<Rightarrow> error + highs" where
  "add_col_constrs x =
     for_each cols (\<lambda>c. for_each values (\<lambda>v h.
       case collect (\<lambda>r. py_index x (var_index r c v)) rows of
         Inl e \<Rightarrow> Inl e
       | Inr xs \<Rightarrow> Inr (addConstr (SumEq xs 1) h)))"

text \<open>Constraint 4: each value appears once per 3x3 block.\<close>

definition add_block_constrs :: "nat list \<Rightarrow> highs \<Rightarrow> error + highs" where
  "add_block_constrs x =
     for_each (py_range 0 n block) (\<lambda>br. for_each (py_range 0 n block) (\<lambda>bc.
       for_each values (\<lambda>v h.
         case collect (\<lambda>(r, c). py_index x (var_index r c v))
                (List.product (py_range br (br + block) 1) (py_range bc (bc + block) 1)) of
           Inl e \<Rightarrow> Inl e
         | Inr xs \<Rightarrow> Inr (addConstr (SumEq xs 1) h))))"

text \<open>Constraint 5: fix the given numbers.\<close>

definition add_given_constrs :: "int list list \<Rightarrow> nat list \<Rightarrow> highs \<Rightarrow> error + highs" where
  "add_given_constrs puzzle x =
     for_each rows (\<lambda>r. for_each cols (\<lambda>c h.
       case py_index puzzle r of
         Inl e \<Rightarrow> Inl e
       | Inr row \<Rightarrow>
           (case py_index row c of
              Inl e \<Rightarrow> Inl e
            | Inr val \<Rightarrow>
                if val \<noteq> 0 then
                  (case py_index x (var_index r c val) of
                     Inl e \<Rightarrow> Inl e
                   | Inr xv \<Rightarrow> Inr (addConstr (SumEq [xv] 1) h))
                else Inr h)))"

text \<open>
  The model builder: the part of \<open>solve_sudoku\<close> before \<open>h.run()\<close>. It returns the
  variables \<open>x\<close> and the model.
\<close>

definition build_model :: "int list list \<Rightarrow> error + (nat list \<times> highs)" where
  "build_model puzzle =
     (let (x, h) = addBinaries num_vars Highs in
      (case add_cell_constrs x h of Inl e \<Rightarrow> Inl e | Inr h1 \<Rightarrow>
      (case add_row_constrs x h1 of Inl e \<Rightarrow> Inl e | Inr h2 \<Rightarrow>
      (case add_col_constrs x h2 of Inl e \<Rightarrow> Inl e | Inr h3 \<Rightarrow>
      (case add_block_constrs x h3 of Inl e \<Rightarrow> Inl e | Inr h4 \<Rightarrow>
      (case add_given_constrs puzzle x h4 of Inl e \<Rightarrow> Inl e | Inr h5 \<Rightarrow>
       Inr (x, h5)))))))"

text \<open>\<open>solution[r][c] = v\<close>\<close>

definition set_cell :: "int list list \<Rightarrow> int \<Rightarrow> int \<Rightarrow> int \<Rightarrow> error + int list list" where
  "set_cell solution r c v =
     (case py_index solution r of
        Inl e \<Rightarrow> Inl e
      | Inr row \<Rightarrow>
          (case py_setitem row c v of
             Inl e \<Rightarrow> Inl e
           | Inr row' \<Rightarrow> py_setitem solution r row'))"

text \<open>
  The extraction: the part of \<open>solve_sudoku\<close> after the status check. \<open>val\<close> is the
  solver's \<open>h.val\<close>, the value of each variable in the solution found.
\<close>

definition extract_solution :: "nat list \<Rightarrow> (nat \<Rightarrow> real) \<Rightarrow> error + int list list" where
  "extract_solution x val =
     for_each rows (\<lambda>r. for_each cols (\<lambda>c. for_each values (\<lambda>v solution.
       let idx = var_index r c v in
       case py_index x idx of
         Inl e \<Rightarrow> Inl e
       | Inr xv \<Rightarrow>
           if \<bar>val xv\<bar> > 0.5 then set_cell solution r c v else Inr solution)))
     (map (\<lambda>_. map (\<lambda>_. 0) cols) rows)"

text \<open>
  \<open>solve_sudoku\<close>, with the solver as a parameter: \<open>run\<close> maps the model to the status
  and the values found. The result is \<open>None\<close> or the solved grid.
\<close>

definition solve_sudoku ::
  "(highs \<Rightarrow> HighsModelStatus \<times> (nat \<Rightarrow> real)) \<Rightarrow> int list list \<Rightarrow> error + int list list option"
  where
  "solve_sudoku run puzzle =
     (case build_model puzzle of
        Inl e \<Rightarrow> Inl e
      | Inr (x, h) \<Rightarrow>
          (let (status, val) = run h in
           if status \<noteq> kOptimal then Inr None
           else (case extract_solution x val of
                   Inl e \<Rightarrow> Inl e
                 | Inr solution \<Rightarrow> Inr (Some solution))))"

section \<open>\<open>validate_sudoku\<close>\<close>

text \<open>
  Each of the three loops of \<open>validate_sudoku\<close> builds a group of cells and returns
  \<open>False\<close> at the first group that has not 9 distinct elements or does not sum to 45.
  \<open>all_groups\<close> is one such loop: \<open>Inr True\<close> when the loop ends without returning.
\<close>

fun all_groups :: "'a list \<Rightarrow> ('a \<Rightarrow> error + int list) \<Rightarrow> error + bool" where
  "all_groups [] grp = Inr True"
| "all_groups (k # ks) grp =
     (case grp k of
        Inl e \<Rightarrow> Inl e
      | Inr g \<Rightarrow>
          if int (card (set g)) \<noteq> 9 \<or> sum_list g \<noteq> 45 then Inr False
          else all_groups ks grp)"

text \<open>\<open>puzzle[r][c]\<close>\<close>

definition cell :: "int list list \<Rightarrow> int \<Rightarrow> int \<Rightarrow> error + int" where
  "cell puzzle r c =
     (case py_index puzzle r of Inl e \<Rightarrow> Inl e | Inr row \<Rightarrow> py_index row c)"

definition validate_sudoku :: "int list list \<Rightarrow> error + bool" where
  "validate_sudoku puzzle =
     (case all_groups (py_range 0 9 1) (\<lambda>r. py_index puzzle r) of
        Inl e \<Rightarrow> Inl e
      | Inr False \<Rightarrow> Inr False
      | Inr True \<Rightarrow>
     (case all_groups (py_range 0 9 1)
             (\<lambda>c. collect (\<lambda>r. cell puzzle r c) (py_range 0 9 1)) of
        Inl e \<Rightarrow> Inl e
      | Inr False \<Rightarrow> Inr False
      | Inr True \<Rightarrow>
          all_groups (List.product (py_range 0 9 3) (py_range 0 9 3))
            (\<lambda>(br, bc). collect (\<lambda>(r, c). cell puzzle r c)
               (List.product (py_range br (br + 3) 1) (py_range bc (bc + 3) 1)))))"

section \<open>Grids, groups and the closed forms of the loops\<close>

text \<open>
  The notions the properties are stated with. A grid is 9 rows of 9 cells; \<open>entry\<close>
  reads a cell of a grid; the groups of a grid are its rows, columns and 3x3 blocks.
\<close>

definition is_grid :: "int list list \<Rightarrow> bool" where
  "is_grid g \<longleftrightarrow> length g = 9 \<and> list_all (\<lambda>row. length row = 9) g"

definition entries_in :: "int \<Rightarrow> int \<Rightarrow> int list list \<Rightarrow> bool" where
  "entries_in lo hi g \<longleftrightarrow> list_all (list_all (\<lambda>e. lo \<le> e \<and> e \<le> hi)) g"

definition entry :: "int list list \<Rightarrow> int \<Rightarrow> int \<Rightarrow> int" where
  "entry g r c = g ! nat r ! nat c"

definition block_cells :: "int \<Rightarrow> int \<Rightarrow> (int \<times> int) list" where
  "block_cells br bc = List.product (py_range br (br + block) 1) (py_range bc (bc + block) 1)"

definition block_origins :: "(int \<times> int) list" where
  "block_origins = List.product (py_range 0 n block) (py_range 0 n block)"

definition row_of :: "int list list \<Rightarrow> int \<Rightarrow> int list" where
  "row_of g r = g ! nat r"

definition col_of :: "int list list \<Rightarrow> int \<Rightarrow> int list" where
  "col_of g c = map (\<lambda>r. entry g r c) rows"

definition block_of :: "int list list \<Rightarrow> int \<Rightarrow> int \<Rightarrow> int list" where
  "block_of g br bc = map (\<lambda>(r, c). entry g r c) (block_cells br bc)"

text \<open>A group is a permutation of 1..9: no value twice, and exactly the values 1..9.\<close>

definition perm_1_9 :: "int list \<Rightarrow> bool" where
  "perm_1_9 g \<longleftrightarrow> distinct g \<and> set g = {1..9}"

text \<open>Every row, column and 3x3 block of a grid is a permutation of 1..9.\<close>

definition all_groups_perm :: "int list list \<Rightarrow> bool" where
  "all_groups_perm g \<longleftrightarrow>
     (\<forall>r\<in>set rows. perm_1_9 (row_of g r))
     \<and> (\<forall>c\<in>set cols. perm_1_9 (col_of g c))
     \<and> (\<forall>(br, bc)\<in>set block_origins. perm_1_9 (block_of g br bc))"

text \<open>The test \<open>validate_sudoku\<close> applies to a group.\<close>

definition group_ok :: "int list \<Rightarrow> bool" where
  "group_ok g \<longleftrightarrow> int (card (set g)) = 9 \<and> sum_list g = 45"

text \<open>
  The five families of constraints, in the order the builder's loops emit them. They are
  proved below to be what the loops add to the model.
\<close>

definition cell_family :: "linear_eq list" where
  "cell_family =
     concat (map (\<lambda>r. map (\<lambda>c. SumEq (map (\<lambda>v. nat (var_index r c v)) values) 1) cols) rows)"

definition row_family :: "linear_eq list" where
  "row_family =
     concat (map (\<lambda>r. map (\<lambda>v. SumEq (map (\<lambda>c. nat (var_index r c v)) cols) 1) values) rows)"

definition col_family :: "linear_eq list" where
  "col_family =
     concat (map (\<lambda>c. map (\<lambda>v. SumEq (map (\<lambda>r. nat (var_index r c v)) rows) 1) values) cols)"

definition block_family :: "linear_eq list" where
  "block_family =
     concat (map (\<lambda>br. concat (map (\<lambda>bc.
       map (\<lambda>v. SumEq (map (\<lambda>(r, c). nat (var_index r c v)) (block_cells br bc)) 1) values)
         (py_range 0 n block))) (py_range 0 n block))"

definition given_family :: "int list list \<Rightarrow> linear_eq list" where
  "given_family puzzle =
     concat (map (\<lambda>r. concat (map (\<lambda>c.
       if puzzle ! nat r ! nat c \<noteq> 0
       then [SumEq [nat (var_index r c (puzzle ! nat r ! nat c))] 1] else []) cols)) rows)"

text \<open>
  A value assignment is a 0/1 point of the model of a puzzle when every variable is 0 or
  1 and every constraint of the five families holds.
\<close>

definition feasible :: "int list list \<Rightarrow> (nat \<Rightarrow> real) \<Rightarrow> bool" where
  "feasible puzzle val \<longleftrightarrow>
     (\<forall>i<729. val i = 0 \<or> val i = 1) \<and>
     (\<forall>e\<in>set (cell_family @ row_family @ col_family @ block_family @ given_family puzzle).
        holds val e)"

text \<open>
  The extraction loop on one cell: \<open>hit\<close> is the test of the loop body, \<open>pick\<close> one
  pass of the loop over \<open>v\<close> on the value the cell holds, \<open>cell_value\<close> the value the
  cell holds after the loop, starting from the 0 of the initial grid. \<open>extracted\<close> is
  the grid of these values, proved below to be what the extraction returns.
\<close>

definition hit :: "(nat \<Rightarrow> real) \<Rightarrow> int \<Rightarrow> int \<Rightarrow> int \<Rightarrow> bool" where
  "hit val r c v \<longleftrightarrow> \<bar>val (nat (var_index r c v))\<bar> > 0.5"

definition pick :: "(nat \<Rightarrow> real) \<Rightarrow> int \<Rightarrow> int \<Rightarrow> int \<Rightarrow> int \<Rightarrow> int" where
  "pick val r c v acc = (if hit val r c v then v else acc)"

definition cell_value :: "(nat \<Rightarrow> real) \<Rightarrow> int \<Rightarrow> int \<Rightarrow> int" where
  "cell_value val r c = fold (pick val r c) values 0"

definition extracted :: "(nat \<Rightarrow> real) \<Rightarrow> int list list" where
  "extracted val = map (\<lambda>r. map (\<lambda>c. cell_value val r c) cols) rows"

definition upd :: "int list list \<Rightarrow> int \<Rightarrow> int \<Rightarrow> int \<Rightarrow> int list list" where
  "upd g r c v = g[nat r := (g ! nat r)[nat c := v]]"

text \<open>The value assignment that encodes a grid: variable \<open>(r, c, v)\<close> is 1 iff the cell holds \<open>v\<close>.\<close>

definition indicator :: "int list list \<Rightarrow> nat \<Rightarrow> real" where
  "indicator g i = (if g ! (i div 81) ! (i mod 81 div 9) = int (i mod 9) + 1 then 1 else 0)"

section \<open>Concrete inputs\<close>

text \<open>The puzzle of the program's main block, and its solution.\<close>

definition classic_puzzle :: "int list list" where
  "classic_puzzle =
    [[5, 3, 0, 0, 7, 0, 0, 0, 0],
     [6, 0, 0, 1, 9, 5, 0, 0, 0],
     [0, 9, 8, 0, 0, 0, 0, 6, 0],
     [8, 0, 0, 0, 6, 0, 0, 0, 3],
     [4, 0, 0, 8, 0, 3, 0, 0, 1],
     [7, 0, 0, 0, 2, 0, 0, 0, 6],
     [0, 6, 0, 0, 0, 0, 2, 8, 0],
     [0, 0, 0, 4, 1, 9, 0, 0, 5],
     [0, 0, 0, 0, 8, 0, 0, 7, 9]]"

definition classic_solution :: "int list list" where
  "classic_solution =
    [[5, 3, 4, 6, 7, 8, 9, 1, 2],
     [6, 7, 2, 1, 9, 5, 3, 4, 8],
     [1, 9, 8, 3, 4, 2, 5, 6, 7],
     [8, 5, 9, 7, 6, 1, 4, 2, 3],
     [4, 2, 6, 8, 5, 3, 7, 9, 1],
     [7, 1, 3, 9, 2, 4, 8, 5, 6],
     [9, 6, 1, 5, 3, 7, 2, 8, 4],
     [2, 8, 7, 4, 1, 9, 6, 3, 5],
     [3, 4, 5, 2, 8, 6, 1, 7, 9]]"

text \<open>The solution with every 1 replaced by 0 and every 9 by 10.\<close>

definition shifted_solution :: "int list list" where
  "shifted_solution =
    [[5, 3, 4, 6, 7, 8, 10, 0, 2],
     [6, 7, 2, 0, 10, 5, 3, 4, 8],
     [0, 10, 8, 3, 4, 2, 5, 6, 7],
     [8, 5, 10, 7, 6, 0, 4, 2, 3],
     [4, 2, 6, 8, 5, 3, 7, 10, 0],
     [7, 0, 3, 10, 2, 4, 8, 5, 6],
     [10, 6, 0, 5, 3, 7, 2, 8, 4],
     [2, 8, 7, 4, 0, 10, 6, 3, 5],
     [3, 4, 5, 2, 8, 6, 0, 7, 10]]"

text \<open>The solution with its first cell emptied.\<close>

definition holed_solution :: "int list list" where
  "holed_solution = classic_solution[0 := [0, 3, 4, 6, 7, 8, 9, 1, 2]]"

text \<open>The empty puzzle with the value 10 in cell (8, 8).\<close>

definition ten_puzzle :: "int list list" where
  "ten_puzzle = replicate 8 (replicate 9 0) @ [[0, 0, 0, 0, 0, 0, 0, 0, 10]]"

text \<open>Solver values where two variables of cell (0, 0), those of 1 and 2, are 1.\<close>

definition two_hits :: "nat \<Rightarrow> real" where
  "two_hits i = (if i = 0 \<or> i = 1 then 1 else 0)"

text \<open>A solver that reports infeasibility, and one that reports the classic solution.\<close>

definition infeasible_run :: "highs \<Rightarrow> HighsModelStatus \<times> (nat \<Rightarrow> real)" where
  "infeasible_run h = (kInfeasible, (\<lambda>i. 0))"

definition classic_run :: "highs \<Rightarrow> HighsModelStatus \<times> (nat \<Rightarrow> real)" where
  "classic_run h = (kOptimal, indicator classic_solution)"

text \<open>The grid the extraction returns on \<open>two_hits\<close>.\<close>

definition two_hits_grid :: "int list list" where
  "two_hits_grid = [2, 0, 0, 0, 0, 0, 0, 0, 0] # replicate 8 (replicate 9 0)"

section \<open>Lemmas\<close>

subsection \<open>Ranges and the index\<close>

lemma py_range_unit: "py_range a b 1 = [a .. b - 1]"
  unfolding py_range_def by (rule nth_equalityI) auto

lemma rows_eq: "rows = [0..8]" by (simp add: rows_def n_def py_range_unit)
lemma cols_eq: "cols = [0..8]" by (simp add: cols_def n_def py_range_unit)
lemma values_eq: "values = [1..9]" by (simp add: values_def n_def py_range_unit)
lemma origins_eq: "py_range 0 n block = [0, 3, 6]" unfolding n_def block_def by code_simp
lemma origins9_eq: "py_range 0 9 3 = [0, 3, 6]" by code_simp

lemma var_index_range:
  assumes "0 \<le> r" "r < 9" "0 \<le> c" "c < 9" "1 \<le> v" "v \<le> 9"
  shows "0 \<le> var_index r c v \<and> var_index r c v < 729"
  using assms unfolding var_index_def n_def by auto

lemma var_index_inj:
  assumes "0 \<le> c" "c < 9" "1 \<le> v" "v \<le> 9" "0 \<le> c'" "c' < 9" "1 \<le> v'" "v' \<le> 9"
    and "var_index r c v = var_index r' c' v'"
  shows "r = r' \<and> c = c' \<and> v = v'"
proof -
  let ?a = "c * 9 + (v - 1)" and ?b = "c' * 9 + (v' - 1)"
  have e: "r * 81 + ?a = r' * 81 + ?b"
    using assms(9) unfolding var_index_def n_def by simp
  have a: "0 \<le> ?a" "?a < 81" and b: "0 \<le> ?b" "?b < 81" using assms by auto
  have r: "r = r'" using e a b by linarith
  with e have e2: "c * 9 + (v - 1) = c' * 9 + (v' - 1)" by simp
  have c: "c = c'" using e2 assms(3,4,7,8) by linarith
  with e2 r show ?thesis by simp
qed

subsection \<open>The builder's loops\<close>

lemma collect_total:
  "(\<And>a. a \<in> set as \<Longrightarrow> f a = Inr (g a)) \<Longrightarrow> collect f as = Inr (map g as)"
  by (induction as) auto

lemma for_each_emit:
  assumes "\<And>k h. k \<in> set ks \<Longrightarrow> body k h = Inr (h\<lparr>constrs := constrs h @ G k\<rparr>)"
  shows "for_each ks body h = Inr (h\<lparr>constrs := constrs h @ concat (map G ks)\<rparr>)"
  using assms by (induction ks arbitrary: h) auto

lemma py_index_nth:
  "0 \<le> i \<Longrightarrow> i < int (length xs) \<Longrightarrow> py_index xs i = Inr (xs ! nat i)"
  by (simp add: py_index_def Let_def)

lemma x_at: "0 \<le> i \<Longrightarrow> i < 729 \<Longrightarrow> py_index [0..<729] i = Inr (nat i)"
  by (simp add: py_index_nth)

lemma in_rows: "r \<in> set rows \<longleftrightarrow> 0 \<le> r \<and> r < 9" by (auto simp: rows_eq)
lemma in_cols: "c \<in> set cols \<longleftrightarrow> 0 \<le> c \<and> c < 9" by (auto simp: cols_eq)
lemma in_values: "v \<in> set values \<longleftrightarrow> 1 \<le> v \<and> v \<le> 9" by (auto simp: values_eq)

lemma x_at_var:
  "r \<in> set rows \<Longrightarrow> c \<in> set cols \<Longrightarrow> v \<in> set values \<Longrightarrow>
   py_index [0..<729] (var_index r c v) = Inr (nat (var_index r c v))"
  using var_index_range[of r c v] by (simp add: in_rows in_cols in_values x_at)

lemma add_cell_constrs_eq:
  "add_cell_constrs [0..<729] h = Inr (h\<lparr>constrs := constrs h @ cell_family\<rparr>)"
  unfolding add_cell_constrs_def cell_family_def
  apply (rule for_each_emit)
  apply (subst for_each_emit[where G = "\<lambda>c. [SumEq (map (\<lambda>v. nat (var_index _ c v)) values) 1]"])
   apply (subst collect_total[where g = "\<lambda>v. nat (var_index _ _ v)"])
    apply (simp add: x_at_var)
   apply (simp add: addConstr_def)
  apply (simp add: concat_map_singleton)
  done

lemma add_row_constrs_eq:
  "add_row_constrs [0..<729] h = Inr (h\<lparr>constrs := constrs h @ row_family\<rparr>)"
  unfolding add_row_constrs_def row_family_def
  apply (rule for_each_emit)
  apply (subst for_each_emit[where G = "\<lambda>v. [SumEq (map (\<lambda>c. nat (var_index _ c v)) cols) 1]"])
   apply (subst collect_total[where g = "\<lambda>c. nat (var_index _ c _)"])
    apply (simp add: x_at_var)
   apply (simp add: addConstr_def)
  apply simp
  done

lemma add_col_constrs_eq:
  "add_col_constrs [0..<729] h = Inr (h\<lparr>constrs := constrs h @ col_family\<rparr>)"
  unfolding add_col_constrs_def col_family_def
  apply (rule for_each_emit)
  apply (subst for_each_emit[where G = "\<lambda>v. [SumEq (map (\<lambda>r. nat (var_index r _ v)) rows) 1]"])
   apply (subst collect_total[where g = "\<lambda>r. nat (var_index r _ _)"])
    apply (simp add: x_at_var)
   apply (simp add: addConstr_def)
  apply simp
  done

lemma in_block_cells:
  assumes "br \<in> set (py_range 0 n block)" "bc \<in> set (py_range 0 n block)"
    and "(r, c) \<in> set (block_cells br bc)"
  shows "r \<in> set rows \<and> c \<in> set cols"
  using assms unfolding origins_eq
  by (auto simp: block_cells_def py_range_unit block_def in_rows in_cols)

lemma add_block_constrs_eq:
  "add_block_constrs [0..<729] h = Inr (h\<lparr>constrs := constrs h @ block_family\<rparr>)"
  unfolding add_block_constrs_def block_family_def
  apply (rule for_each_emit)
  apply (rule for_each_emit)
  apply (subst for_each_emit[where
        G = "\<lambda>v. [SumEq (map (\<lambda>(r, c). nat (var_index r c v)) (block_cells _ _)) 1]"])
   apply (fold block_cells_def)
   apply (subst collect_total[where g = "\<lambda>(r, c). nat (var_index r c _)"])
    apply (auto simp: x_at_var dest: in_block_cells)[1]
   apply (simp add: addConstr_def)
  apply simp
  done

lemma is_grid_nth:
  "is_grid g \<Longrightarrow> r \<in> set rows \<Longrightarrow> py_index g r = Inr (g ! nat r)"
  by (simp add: is_grid_def in_rows py_index_nth)

lemma is_grid_row:
  "is_grid g \<Longrightarrow> r \<in> set rows \<Longrightarrow> length (g ! nat r) = 9"
  by (auto simp: is_grid_def in_rows list_all_length)

lemma is_grid_cell:
  "is_grid g \<Longrightarrow> r \<in> set rows \<Longrightarrow> c \<in> set cols \<Longrightarrow>
   py_index (g ! nat r) c = Inr (g ! nat r ! nat c)"
  using is_grid_row[of g r] by (simp add: in_cols py_index_nth)

lemma entries_in_nth:
  "is_grid g \<Longrightarrow> entries_in lo hi g \<Longrightarrow> r \<in> set rows \<Longrightarrow> c \<in> set cols \<Longrightarrow>
   lo \<le> g ! nat r ! nat c \<and> g ! nat r ! nat c \<le> hi"
  using is_grid_row[of g r]
  by (auto simp: entries_in_def is_grid_def in_rows in_cols list_all_length)

lemma given_body:
  assumes "is_grid puzzle" "entries_in 0 9 puzzle" "r \<in> set rows" "c \<in> set cols"
  shows "(case py_index puzzle r of
            Inl e \<Rightarrow> Inl e
          | Inr row \<Rightarrow>
              (case py_index row c of
                 Inl e \<Rightarrow> Inl e
               | Inr val \<Rightarrow>
                   if val \<noteq> 0 then
                     (case py_index [0..<729] (var_index r c val) of
                        Inl e \<Rightarrow> Inl e
                      | Inr xv \<Rightarrow> Inr (addConstr (SumEq [xv] 1) h))
                   else Inr h)) =
         Inr (h\<lparr>constrs := constrs h @
                (if puzzle ! nat r ! nat c \<noteq> 0
                 then [SumEq [nat (var_index r c (puzzle ! nat r ! nat c))] 1] else [])\<rparr>)"
proof (cases "puzzle ! nat r ! nat c = 0")
  case True
  then show ?thesis using assms by (simp add: is_grid_nth is_grid_cell)
next
  case False
  with entries_in_nth[OF assms] have "puzzle ! nat r ! nat c \<in> set values"
    by (simp add: in_values)
  then show ?thesis
    using assms False by (simp add: is_grid_nth is_grid_cell x_at_var addConstr_def)
qed

lemma add_given_constrs_eq:
  assumes "is_grid puzzle" "entries_in 0 9 puzzle"
  shows "add_given_constrs puzzle [0..<729] h =
         Inr (h\<lparr>constrs := constrs h @ given_family puzzle\<rparr>)"
  unfolding add_given_constrs_def given_family_def
  apply (rule for_each_emit)
  apply (rule for_each_emit)
  apply (rule given_body[OF assms])
   apply assumption+
  done

lemma addBinaries_eq:
  "addBinaries num_vars Highs = ([0..<729], \<lparr>num_binaries = 729, constrs = []\<rparr>)"
  by (simp add: addBinaries_def num_vars_def n_def Highs_def)

lemma build_model_eq:
  assumes "is_grid puzzle" "entries_in 0 9 puzzle"
  shows "build_model puzzle =
         Inr ([0..<729],
              \<lparr>num_binaries = 729,
               constrs = cell_family @ row_family @ col_family @ block_family
                         @ given_family puzzle\<rparr>)"
  by (simp add: build_model_def addBinaries_eq add_cell_constrs_eq add_row_constrs_eq
      add_col_constrs_eq add_block_constrs_eq add_given_constrs_eq[OF assms])

subsection \<open>The extraction loop\<close>

lemma for_each_rule_aux:
  assumes step: "\<And>pre k post s. ks0 = pre @ k # post \<Longrightarrow> P pre s \<Longrightarrow>
                   \<exists>s'. body k s = Inr s' \<and> P (pre @ [k]) s'"
  shows "ks0 = pre @ ks \<Longrightarrow> P pre s \<Longrightarrow> \<exists>s'. for_each ks body s = Inr s' \<and> P ks0 s'"
proof (induction ks arbitrary: pre s)
  case Nil
  then show ?case by simp
next
  case (Cons k ks)
  from step[OF Cons.prems] obtain s1 where s1: "body k s = Inr s1" "P (pre @ [k]) s1"
    by blast
  from Cons.prems(1) have "ks0 = (pre @ [k]) @ ks" by simp
  from Cons.IH[OF this s1(2)] s1(1) show ?case by simp
qed

lemma for_each_rule:
  assumes "P [] s"
    and "\<And>pre k post s. ks = pre @ k # post \<Longrightarrow> P pre s \<Longrightarrow>
           \<exists>s'. body k s = Inr s' \<and> P (pre @ [k]) s'"
  shows "\<exists>s'. for_each ks body s = Inr s' \<and> P ks s'"
  using for_each_rule_aux[where P = P and pre = "[]" and ks = ks and ks0 = ks and body = body, OF assms(2)]
    assms(1) by simp

lemma nat_rows: "r \<in> set rows \<Longrightarrow> nat r < 9"
  unfolding in_rows by linarith

lemma nat_cols: "c \<in> set cols \<Longrightarrow> nat c < 9"
  unfolding in_cols by linarith

lemma nat_rows_eq: "r \<in> set rows \<Longrightarrow> r' \<in> set rows \<Longrightarrow> nat r = nat r' \<longleftrightarrow> r = r'"
  by (auto simp: in_rows)

lemma nat_cols_eq: "c \<in> set cols \<Longrightarrow> c' \<in> set cols \<Longrightarrow> nat c = nat c' \<longleftrightarrow> c = c'"
  by (auto simp: in_cols)

lemma is_grid_upd:
  assumes "is_grid g"
  shows "is_grid (upd g r c v)"
proof (cases "nat r < length g")
  case True
  then show ?thesis
    using assms by (auto simp: is_grid_def upd_def list_all_length nth_list_update)
next
  case False
  then show ?thesis using assms by (simp add: upd_def list_update_beyond)
qed

lemma entry_upd:
  assumes "is_grid g" "r \<in> set rows" "c \<in> set cols" "r' \<in> set rows" "c' \<in> set cols"
  shows "entry (upd g r c v) r' c' = (if r' = r \<and> c' = c then v else entry g r' c')"
proof -
  have l: "length g = 9" "length (g ! nat r) = 9"
    using assms(1) is_grid_row[OF assms(1,2)] by (simp_all add: is_grid_def)
  show ?thesis
    using l nat_rows[OF assms(2)] nat_rows[OF assms(4)] nat_cols[OF assms(3)]
      nat_cols[OF assms(5)] nat_rows_eq[OF assms(2,4)] nat_cols_eq[OF assms(3,5)]
    by (auto simp: entry_def upd_def nth_list_update)
qed

lemma upd_upd: "is_grid g \<Longrightarrow> r \<in> set rows \<Longrightarrow> upd (upd g r c v) r c w = upd g r c w"
  using nat_rows[of r] by (simp add: upd_def is_grid_def)

lemma upd_same: "upd g r c (entry g r c) = g"
  by (simp add: upd_def entry_def)

lemma set_cell_eq:
  assumes "is_grid g" "r \<in> set rows" "c \<in> set cols"
  shows "set_cell g r c v = Inr (upd g r c v)"
  using assms is_grid_row[OF assms(1,2)]
  by (simp add: set_cell_def is_grid_nth py_setitem_def Let_def in_rows in_cols is_grid_def upd_def)

lemma inner_loop:
  assumes "r \<in> set rows" "c \<in> set cols"
  shows "is_grid g \<Longrightarrow> set vs \<subseteq> set values \<Longrightarrow>
    for_each vs (\<lambda>v solution.
       let idx = var_index r c v in
       case py_index [0..<729] idx of
         Inl e \<Rightarrow> Inl e
       | Inr xv \<Rightarrow>
           if \<bar>val xv\<bar> > 0.5 then set_cell solution r c v else Inr solution) g
    = Inr (upd g r c (fold (pick val r c) vs (entry g r c)))"
proof (induction vs arbitrary: g)
  case Nil
  then show ?case by (simp add: upd_same)
next
  case (Cons v vs)
  have v: "v \<in> set values" and vs: "set vs \<subseteq> set values" using Cons.prems(2) by auto
  show ?case
  proof (cases "\<bar>val (nat (var_index r c v))\<bar> > 0.5")
    case True
    have g1: "is_grid (upd g r c v)" by (rule is_grid_upd[OF Cons.prems(1)])
    have "entry (upd g r c v) r c = v" using entry_upd[OF Cons.prems(1) assms assms] by simp
    with Cons.IH[OF g1 vs] True show ?thesis
      using assms v Cons.prems(1)
      by (simp add: x_at_var set_cell_eq upd_upd pick_def hit_def)
  next
    case False
    with Cons.IH[OF Cons.prems(1) vs] show ?thesis
      using assms v by (simp add: x_at_var pick_def hit_def)
  qed
qed

lemma distinct_cols: "distinct cols" by (simp add: cols_eq)
lemma distinct_rows: "distinct rows" by (simp add: rows_eq)

lemma split_mem: "xs = pre @ k # post \<Longrightarrow> distinct xs \<Longrightarrow> k \<in> set xs \<and> k \<notin> set pre"
  by auto

lemma mid_loop:
  assumes r: "r \<in> set rows" and g0: "is_grid g0"
    and z: "\<And>c. c \<in> set cols \<Longrightarrow> entry g0 r c = 0"
  shows "\<exists>g. for_each cols (\<lambda>c. for_each values (\<lambda>v solution.
             let idx = var_index r c v in
             case py_index [0..<729] idx of
               Inl e \<Rightarrow> Inl e
             | Inr xv \<Rightarrow>
                 if \<bar>val xv\<bar> > 0.5 then set_cell solution r c v else Inr solution)) g0 = Inr g
           \<and> is_grid g
           \<and> (\<forall>r'\<in>set rows. \<forall>c'\<in>set cols.
                 entry g r' c' = (if r' = r then cell_value val r c' else entry g0 r' c'))"
proof -
  let ?P = "\<lambda>pre g. is_grid g \<and> (\<forall>r'\<in>set rows. \<forall>c'\<in>set cols.
       entry g r' c' = (if r' = r \<and> c' \<in> set pre then cell_value val r c' else entry g0 r' c'))"
  let ?body = "\<lambda>c. for_each values (\<lambda>v solution.
             let idx = var_index r c v in
             case py_index [0..<729] idx of
               Inl e \<Rightarrow> Inl e
             | Inr xv \<Rightarrow>
                 if \<bar>val xv\<bar> > 0.5 then set_cell solution r c v else Inr solution)"
  have "\<exists>g. for_each cols ?body g0 = Inr g \<and> ?P cols g"
  proof (rule for_each_rule[where P = ?P])
    show "?P [] g0" using g0 by simp
  next
    fix pre k post g
    assume split: "cols = pre @ k # post" and P: "?P pre g"
    have k: "k \<in> set cols" "k \<notin> set pre"
      using split_mem[OF split distinct_cols] by simp_all
    have "entry g r k = 0" using P k r z by simp
    then have run: "?body k g = Inr (upd g r k (cell_value val r k))"
      using inner_loop[OF r k(1), of g "values" val] P by (simp add: cell_value_def)
    have "?P (pre @ [k]) (upd g r k (cell_value val r k))"
      using P r k(1) by (auto simp: is_grid_upd entry_upd)
    with run show "\<exists>s'. ?body k g = Inr s' \<and> ?P (pre @ [k]) s'" by blast
  qed
  then show ?thesis by auto
qed

lemma is_grid_init: "is_grid (map (\<lambda>_. map (\<lambda>_. 0) cols) rows)"
  by (simp add: is_grid_def list_all_iff rows_eq cols_eq)

lemma entry_init:
  "r \<in> set rows \<Longrightarrow> c \<in> set cols \<Longrightarrow> entry (map (\<lambda>_. map (\<lambda>_. 0) cols) rows) r c = 0"
  using nat_rows[of r] nat_cols[of c] by (simp add: entry_def rows_eq cols_eq)

lemma grid_eqI:
  assumes "is_grid g" "is_grid g'"
    and "\<And>r c. r \<in> set rows \<Longrightarrow> c \<in> set cols \<Longrightarrow> entry g r c = entry g' r c"
  shows "g = g'"
proof (rule nth_equalityI)
  show "length g = length g'" using assms by (simp add: is_grid_def)
next
  fix i assume "i < length g"
  then have i: "i < 9" using assms(1) by (simp add: is_grid_def)
  then have ir: "int i \<in> set rows" by (simp add: in_rows)
  show "g ! i = g' ! i"
  proof (rule nth_equalityI)
    show "length (g ! i) = length (g' ! i)"
      using is_grid_row[OF assms(1) ir] is_grid_row[OF assms(2) ir] by simp
  next
    fix j assume "j < length (g ! i)"
    then have "j < 9" using is_grid_row[OF assms(1) ir] by simp
    then have "int j \<in> set cols" by (simp add: in_cols)
    from assms(3)[OF ir this] show "g ! i ! j = g' ! i ! j" by (simp add: entry_def)
  qed
qed

lemma is_grid_extracted: "is_grid (extracted val)"
  by (simp add: extracted_def is_grid_def list_all_iff rows_eq cols_eq)

lemma entry_extracted:
  "r \<in> set rows \<Longrightarrow> c \<in> set cols \<Longrightarrow> entry (extracted val) r c = cell_value val r c"
  using nat_rows[of r] nat_cols[of c]
  by (simp add: entry_def extracted_def rows_eq cols_eq in_rows[unfolded rows_eq] in_cols[unfolded cols_eq])

lemma extract_solution_eq: "extract_solution [0..<729] val = Inr (extracted val)"
proof -
  let ?P = "\<lambda>pre g. is_grid g \<and> (\<forall>r'\<in>set rows. \<forall>c'\<in>set cols.
       entry g r' c' = (if r' \<in> set pre then cell_value val r' c' else 0))"
  let ?body = "\<lambda>r. for_each cols (\<lambda>c. for_each values (\<lambda>v solution.
             let idx = var_index r c v in
             case py_index [0..<729] idx of
               Inl e \<Rightarrow> Inl e
             | Inr xv \<Rightarrow>
                 if \<bar>val xv\<bar> > 0.5 then set_cell solution r c v else Inr solution))"
  have "\<exists>g. for_each rows ?body (map (\<lambda>_. map (\<lambda>_. 0) cols) rows) = Inr g \<and> ?P rows g"
  proof (rule for_each_rule[where P = ?P])
    show "?P [] (map (\<lambda>_. map (\<lambda>_. 0) cols) rows)"
      by (simp add: is_grid_init entry_init)
  next
    fix pre k post g
    assume split: "rows = pre @ k # post" and P: "?P pre g"
    have k: "k \<in> set rows" "k \<notin> set pre"
      using split_mem[OF split distinct_rows] by simp_all
    have z: "\<And>c. c \<in> set cols \<Longrightarrow> entry g k c = 0" using P k by simp
    have gg: "is_grid g" using P by simp
    from mid_loop[OF k(1) gg z, where val = val] obtain g' where
      g': "?body k g = Inr g'" "is_grid g'"
      "\<forall>r'\<in>set rows. \<forall>c'\<in>set cols.
          entry g' r' c' = (if r' = k then cell_value val k c' else entry g r' c')"
      by blast
    have "?P (pre @ [k]) g'" using P g'(2,3) by auto
    with g'(1) show "\<exists>s'. ?body k g = Inr s' \<and> ?P (pre @ [k]) s'" by blast
  qed
  then obtain g where g: "extract_solution [0..<729] val = Inr g" "is_grid g"
    "\<forall>r'\<in>set rows. \<forall>c'\<in>set cols. entry g r' c' = cell_value val r' c'"
    unfolding extract_solution_def by auto
  have "g = extracted val"
    by (rule grid_eqI[OF g(2) is_grid_extracted]) (simp add: g(3) entry_extracted)
  with g(1) show ?thesis by simp
qed

subsection \<open>The puzzle with an entry out of range\<close>

lemma rows_list: "rows = [0, 1, 2, 3, 4, 5, 6, 7, 8]" unfolding rows_def n_def by code_simp
lemma cols_list: "cols = [0, 1, 2, 3, 4, 5, 6, 7, 8]" unfolding cols_def n_def by code_simp
lemma values_list: "values = [1, 2, 3, 4, 5, 6, 7, 8, 9]" unfolding values_def n_def by code_simp

lemma ten_puzzle_list: "ten_puzzle = [[0, 0, 0, 0, 0, 0, 0, 0, 0], [0, 0, 0, 0, 0, 0, 0, 0, 0], [0, 0, 0, 0, 0, 0, 0, 0, 0],
  [0, 0, 0, 0, 0, 0, 0, 0, 0], [0, 0, 0, 0, 0, 0, 0, 0, 0], [0, 0, 0, 0, 0, 0, 0, 0, 0],
  [0, 0, 0, 0, 0, 0, 0, 0, 0], [0, 0, 0, 0, 0, 0, 0, 0, 0], [0, 0, 0, 0, 0, 0, 0, 0, 10]]"
  by (simp add: ten_puzzle_def eval_nat_numeral)

lemma ten_given: "add_given_constrs ten_puzzle [0..<729] h = Inl IndexError"
  unfolding add_given_constrs_def rows_list cols_list ten_puzzle_list
  by (simp add: py_index_def var_index_def n_def)

lemma ten_build: "build_model ten_puzzle = Inl IndexError"
  by (simp add: build_model_def addBinaries_eq add_cell_constrs_eq add_row_constrs_eq
      add_col_constrs_eq add_block_constrs_eq ten_given)

lemma ten_props: "is_grid ten_puzzle \<and> \<not> entries_in 0 9 ten_puzzle \<and> entry ten_puzzle 8 8 = 10"
  by (simp add: ten_puzzle_list is_grid_def entries_in_def entry_def)

subsection \<open>Decoding an index\<close>

lemma var_index_decode:
  assumes "0 \<le> c" "c < 9" "1 \<le> v" "v \<le> 9"
  shows "var_index r c v div 81 = r" "var_index r c v mod 81 div 9 = c"
    "var_index r c v mod 9 + 1 = v"
proof -
  define a where "a = c * 9 + (v - 1)"
  have a: "0 \<le> a" "a < 81" using assms by (auto simp: a_def)
  have e: "var_index r c v = a + r * 81" by (simp add: var_index_def n_def a_def)
  have w: "0 \<le> v - 1" "v - 1 < 9" using assms by auto
  have "(a + r * 81) div 81 = r + a div 81" by (rule div_mult_self1) simp
  then show "var_index r c v div 81 = r" using a by (simp only: e div_pos_pos_trivial)
  have "(a + r * 81) mod 81 = a mod 81" by (rule mod_mult_self1)
  then have m: "var_index r c v mod 81 = a" using a by (simp only: e mod_pos_pos_trivial)
  have a2: "a = (v - 1) + c * 9" by (simp add: a_def)
  have "((v - 1) + c * 9) div 9 = c + (v - 1) div 9" by (rule div_mult_self1) simp
  then show "var_index r c v mod 81 div 9 = c"
    using w unfolding m a2 by (simp only: div_pos_pos_trivial)
  have "((v - 1) + c * 9) mod 9 = (v - 1) mod 9" by (rule mod_mult_self1)
  then have "a mod 9 = v - 1" using w unfolding a2 by (simp only: mod_pos_pos_trivial)
  moreover have "var_index r c v mod 9 = a mod 9"
  proof -
    have "var_index r c v = a + (r * 9) * 9" by (simp add: e)
    then show ?thesis by (simp only: mod_mult_self1)
  qed
  ultimately show "var_index r c v mod 9 + 1 = v" by simp
qed

lemma var_index_encode:
  assumes "0 \<le> i" "i < 729"
  shows "0 \<le> i div 81" "i div 81 < 9" "0 \<le> i mod 81 div 9" "i mod 81 div 9 < 9"
    "1 \<le> i mod 9 + 1" "i mod 9 + 1 \<le> 9"
    "var_index (i div 81) (i mod 81 div 9) (i mod 9 + 1) = i"
proof -
  show "0 \<le> i div 81" "i div 81 < 9" "0 \<le> i mod 81 div 9" "i mod 81 div 9 < 9"
    "1 \<le> i mod 9 + 1" "i mod 9 + 1 \<le> 9"
    using assms by auto
  have m: "i mod 81 mod 9 = i mod 9" by (simp add: mod_mod_cancel)
  have "i mod 81 div 9 * 9 + i mod 81 mod 9 = i mod 81" by (rule div_mult_mod_eq)
  moreover have "i div 81 * 81 + i mod 81 = i" by (rule div_mult_mod_eq)
  ultimately have "i div 81 * 81 + (i mod 81 div 9 * 9 + i mod 9) = i"
    unfolding m by linarith
  then show "var_index (i div 81) (i mod 81 div 9) (i mod 9 + 1) = i"
    by (simp add: var_index_def n_def)
qed

subsection \<open>The validator\<close>

lemma sum_1_9: "sum (\<lambda>x. x) {1..9::int} = 45"
proof -
  have "sum (\<lambda>x. x) (set [1..9::int]) = sum_list (map (\<lambda>x. x) [1..9])"
    by (rule sum_list_distinct_conv_sum_set[symmetric]) simp
  also have "\<dots> = 45" by (simp add: upto_rec1)
  finally show ?thesis by simp
qed

lemma sum_0_9: "sum (\<lambda>x. x) {0..9::int} = 45"
proof -
  have "{0..9::int} = insert 0 {1..9}" by auto
  then show ?thesis using sum_1_9 by simp
qed

lemma perm_group_ok:
  assumes "perm_1_9 g"
  shows "group_ok g"
proof -
  from assms have d: "distinct g" and s: "set g = {1..9}" by (simp_all add: perm_1_9_def)
  have "sum_list g = sum (\<lambda>x. x) (set g)"
    using sum_list_distinct_conv_sum_set[OF d, of "\<lambda>x. x"] by simp
  then have "sum_list g = 45" by (simp add: s sum_1_9)
  moreover have "card (set g) = 9" by (simp add: s)
  ultimately show ?thesis by (simp add: group_ok_def)
qed

lemma group_ok_perm:
  assumes len: "length g = 9" and rng: "\<And>e. e \<in> set g \<Longrightarrow> 0 \<le> e \<and> e \<le> 9"
    and ok: "group_ok g"
  shows "perm_1_9 g"
proof -
  from ok have c: "card (set g) = 9" and s: "sum_list g = 45" by (simp_all add: group_ok_def)
  have d: "distinct g" using c len by (simp add: card_distinct)
  have sub: "set g \<subseteq> {0..9}" using rng by auto
  have sg: "sum (\<lambda>x. x) (set g) = 45"
    using sum_list_distinct_conv_sum_set[OF d, of "\<lambda>x. x"] s by simp
  let ?R = "{0..9} - set g"
  have "sum (\<lambda>x. x) {0..9::int} = sum (\<lambda>x. x) ?R + sum (\<lambda>x. x) (set g)"
    by (rule sum.subset_diff[OF sub]) simp
  then have r0: "sum (\<lambda>x. x) ?R = 0" using sg sum_0_9 by simp
  have "card ?R = card {0..9::int} - card (set g)"
    by (rule card_Diff_subset[OF _ sub]) simp
  then have "card ?R = 1" using c by simp
  then obtain x where x: "?R = {x}" by (auto simp: card_1_singleton_iff)
  with r0 have "x = 0" by simp
  with x have R: "?R = {0}" by simp
  have "set g = {1..9}"
  proof (rule set_eqI)
    fix e :: int
    have "e \<in> ?R \<longleftrightarrow> e = 0" using R by simp
    then show "e \<in> set g \<longleftrightarrow> e \<in> {1..9}" using sub by auto
  qed
  with d show ?thesis by (simp add: perm_1_9_def)
qed

lemma all_groups_total:
  "(\<And>k. k \<in> set ks \<Longrightarrow> grp k = Inr (G k)) \<Longrightarrow>
   all_groups ks grp = Inr (list_all (\<lambda>k. group_ok (G k)) ks)"
  by (induction ks) (auto simp: group_ok_def)

lemma cell_eq:
  "is_grid g \<Longrightarrow> r \<in> set rows \<Longrightarrow> c \<in> set cols \<Longrightarrow> cell g r c = Inr (entry g r c)"
  by (simp add: cell_def is_grid_nth is_grid_cell entry_def)

lemma range9: "py_range 0 9 1 = rows" "py_range 0 9 1 = cols"
  by (simp_all add: rows_def cols_def n_def)

lemma range93: "py_range 0 9 3 = py_range 0 n block"
  by (simp add: n_def block_def)

lemma in_origins: "b \<in> set (py_range 0 n block) \<longleftrightarrow> b = 0 \<or> b = 3 \<or> b = 6"
  by (auto simp: origins_eq)

lemma validate_rows:
  assumes "is_grid g"
  shows "all_groups (py_range 0 9 1) (\<lambda>r. py_index g r)
         = Inr (list_all (\<lambda>r. group_ok (row_of g r)) rows)"
  unfolding range9(1)
  by (rule all_groups_total) (simp add: is_grid_nth[OF assms] row_of_def)

lemma cols_rows: "cols = rows"
  by (simp add: cols_def rows_def)

lemma validate_cols:
  assumes "is_grid g"
  shows "all_groups (py_range 0 9 1) (\<lambda>c. collect (\<lambda>r. cell g r c) (py_range 0 9 1))
         = Inr (list_all (\<lambda>c. group_ok (col_of g c)) cols)"
proof -
  have "all_groups cols (\<lambda>c. collect (\<lambda>r. cell g r c) rows)
         = Inr (list_all (\<lambda>c. group_ok (col_of g c)) cols)"
    unfolding col_of_def
    by (rule all_groups_total, rule collect_total) (simp add: cell_eq[OF assms])
  then show ?thesis by (simp only: range9(1) cols_rows)
qed

lemma block_cells3:
  "List.product (py_range br (br + 3) 1) (py_range bc (bc + 3) 1) = block_cells br bc"
  by (simp add: block_cells_def block_def)

lemma validate_blocks:
  assumes "is_grid g"
  shows "all_groups (List.product (py_range 0 9 3) (py_range 0 9 3))
            (\<lambda>(br, bc). collect (\<lambda>(r, c). cell g r c)
               (List.product (py_range br (br + 3) 1) (py_range bc (bc + 3) 1)))
         = Inr (list_all (\<lambda>(br, bc). group_ok (block_of g br bc)) block_origins)"
proof -
  have "all_groups block_origins
            (\<lambda>(br, bc). collect (\<lambda>(r, c). cell g r c) (block_cells br bc))
         = Inr (list_all (\<lambda>k. group_ok ((\<lambda>(br, bc). block_of g br bc) k)) block_origins)"
  proof (rule all_groups_total)
    fix k assume k: "k \<in> set block_origins"
    obtain br bc where kk: "k = (br, bc)" by (cases k)
    from k kk have o: "br \<in> set (py_range 0 n block)" "bc \<in> set (py_range 0 n block)"
      by (simp_all add: block_origins_def)
    have "collect (\<lambda>(r, c). cell g r c) (block_cells br bc)
          = Inr (map (\<lambda>(r, c). entry g r c) (block_cells br bc))"
      by (rule collect_total) (use in_block_cells[OF o] cell_eq[OF assms] in auto)
    then show "(case k of (br, bc) \<Rightarrow> collect (\<lambda>(r, c). cell g r c) (block_cells br bc))
          = Inr (case k of (br, bc) \<Rightarrow> block_of g br bc)"
      by (simp add: kk block_of_def)
  qed
  moreover have "(\<lambda>k. group_ok (case k of (br, bc) \<Rightarrow> block_of g br bc))
                 = (\<lambda>(br, bc). group_ok (block_of g br bc))"
    by auto
  ultimately show ?thesis
    by (simp only: range93 block_origins_def[symmetric] block_cells3)
qed

lemma validate_sudoku_eq:
  assumes "is_grid g"
  shows "validate_sudoku g =
         Inr (list_all (\<lambda>r. group_ok (row_of g r)) rows
              \<and> list_all (\<lambda>c. group_ok (col_of g c)) cols
              \<and> list_all (\<lambda>(br, bc). group_ok (block_of g br bc)) block_origins)"
  unfolding validate_sudoku_def validate_rows[OF assms] validate_cols[OF assms]
    validate_blocks[OF assms]
  by (simp split: bool.splits)

subsection \<open>A 0/1 point of the model\<close>

lemma pick_hit: "pick val r c v acc = (if hit val r c v then v else acc)"
  by (simp add: pick_def)

lemma fold_pick_only:
  "(\<And>w. w \<in> set vs \<Longrightarrow> hit val r c w \<Longrightarrow> w = v) \<Longrightarrow>
   (v \<in> set vs \<and> hit val r c v) \<or> acc = v \<Longrightarrow> fold (pick val r c) vs acc = v"
proof (induction vs arbitrary: acc)
  case Nil
  then show ?case by simp
next
  case (Cons w ws)
  have "(v \<in> set ws \<and> hit val r c v) \<or> pick val r c w acc = v"
    using Cons.prems by (auto simp: pick_hit)
  then show ?case using Cons.IH[of "pick val r c w acc"] Cons.prems(1) by simp
qed

lemma fold_pick_none:
  "(\<And>w. w \<in> set vs \<Longrightarrow> \<not> hit val r c w) \<Longrightarrow> fold (pick val r c) vs acc = acc"
  by (induction vs arbitrary: acc) (simp_all add: pick_hit)

lemma fold_pick_last:
  assumes "hit val r c v" and "\<And>w. w \<in> set post \<Longrightarrow> \<not> hit val r c w"
  shows "fold (pick val r c) (pre @ v # post) acc = v"
  using assms by (simp add: fold_pick_none pick_hit)

lemma fold_pick_range:
  "fold (pick val r c) vs acc = acc \<or> fold (pick val r c) vs acc \<in> set vs"
proof (induction vs arbitrary: acc)
  case Nil
  then show ?case by simp
next
  case (Cons w ws)
  show ?case using Cons.IH[of "pick val r c w acc"] by (auto simp: pick_hit)
qed

lemma sum_list_zero: "(\<And>x. x \<in> set xs \<Longrightarrow> val x = (0::real)) \<Longrightarrow> sum_list (map val xs) = 0"
  by (induction xs) simp_all

lemma one_of_sum:
  assumes "sum_list (map val xs) = (1::real)"
    and "\<And>x. x \<in> set xs \<Longrightarrow> val x = 0 \<or> val x = 1"
  shows "\<exists>x\<in>set xs. val x = 1"
proof (rule ccontr)
  assume "\<not> (\<exists>x\<in>set xs. val x = 1)"
  with assms(2) have z: "\<And>x. x \<in> set xs \<Longrightarrow> val x = 0" by blast
  have "sum_list (map val xs) = 0" by (rule sum_list_zero) (rule z)
  with assms(1) show False by simp
qed

lemma only_one_of_sum:
  assumes s: "sum_list (map val xs) = (1::real)"
    and zo: "\<And>x. x \<in> set xs \<Longrightarrow> val x = 0 \<or> val x = 1"
    and d: "distinct xs"
    and x: "x \<in> set xs" "val x = 1" and y: "y \<in> set xs" "val y = 1"
  shows "x = y"
proof (rule ccontr)
  assume ne: "x \<noteq> y"
  have nn: "\<And>z. z \<in> set xs \<Longrightarrow> 0 \<le> val z" using zo by force
  have "sum val {x, y} \<le> sum val (set xs)"
    by (rule sum_mono2) (use x y nn in auto)
  moreover have "sum val {x, y} = 2" using ne x y by simp
  moreover have "sum val (set xs) = sum_list (map val xs)"
    by (rule sum_list_distinct_conv_sum_set[OF d, symmetric])
  ultimately show False using s by simp
qed

lemma perm_by_cover:
  assumes "length g = 9" "{1..9} \<subseteq> set g"
  shows "perm_1_9 g"
proof -
  have "card (set g) \<le> 9" using card_length[of g] assms(1) by simp
  then have "card (set g) \<le> card {1..9::int}" by simp
  with assms(2) have e: "{1..9} = set g" by (intro card_seteq) simp_all
  then have "card (set g) = length g" using assms(1) by (simp add: e[symmetric])
  then have "distinct g" by (rule card_distinct)
  with e show ?thesis by (simp add: perm_1_9_def)
qed

lemma nat_idx_lt:
  "r \<in> set rows \<Longrightarrow> c \<in> set cols \<Longrightarrow> v \<in> set values \<Longrightarrow> nat (var_index r c v) < 729"
  using var_index_range[of r c v] unfolding in_rows in_cols in_values by linarith

lemma feasible_holds:
  assumes "feasible puzzle val"
    and "SumEq xs 1 \<in> set cell_family \<union> set row_family \<union> set col_family
           \<union> set block_family \<union> set (given_family puzzle)"
  shows "sum_list (map val xs) = 1"
proof -
  from assms have "holds val (SumEq xs 1)" unfolding feasible_def by auto
  then show ?thesis by (simp add: holds_def)
qed

lemma nat_idx_inj:
  assumes "r \<in> set rows" "c \<in> set cols" "v \<in> set values"
    and "r' \<in> set rows" "c' \<in> set cols" "v' \<in> set values"
    and e: "nat (var_index r c v) = nat (var_index r' c' v')"
  shows "r = r' \<and> c = c' \<and> v = v'"
proof -
  have "0 \<le> var_index r c v" "0 \<le> var_index r' c' v'"
    using var_index_range[of r c v] var_index_range[of r' c' v'] assms(1-6)
    by (simp_all add: in_rows in_cols in_values)
  with e have "var_index r c v = var_index r' c' v'" by simp
  then show ?thesis
    using assms(2,3,5,6) by (intro var_index_inj) (simp_all add: in_cols in_values)
qed

lemma feasible_01:
  "feasible puzzle val \<Longrightarrow> r \<in> set rows \<Longrightarrow> c \<in> set cols \<Longrightarrow> v \<in> set values \<Longrightarrow>
   val (nat (var_index r c v)) = 0 \<or> val (nat (var_index r c v)) = 1"
  using nat_idx_lt[of r c v] by (simp add: feasible_def)

lemma hit_iff:
  assumes "feasible puzzle val" "r \<in> set rows" "c \<in> set cols" "v \<in> set values"
  shows "hit val r c v \<longleftrightarrow> val (nat (var_index r c v)) = 1"
  using feasible_01[OF assms] by (auto simp: hit_def)

lemma cell_unique:
  assumes f: "feasible puzzle val" and r: "r \<in> set rows" and c: "c \<in> set cols"
  shows "\<exists>v\<in>set values. val (nat (var_index r c v)) = 1 \<and>
           (\<forall>w\<in>set values. val (nat (var_index r c w)) = 1 \<longrightarrow> w = v)"
proof -
  let ?xs = "map (\<lambda>v. nat (var_index r c v)) values"
  have "SumEq ?xs 1 \<in> set cell_family"
    using r c by (auto simp: cell_family_def)
  then have s: "sum_list (map val ?xs) = 1" by (intro feasible_holds[OF f]) simp
  have zo: "\<And>x. x \<in> set ?xs \<Longrightarrow> val x = 0 \<or> val x = 1"
    using feasible_01[OF f r c] by auto
  have d: "distinct ?xs"
    unfolding distinct_map
  proof
    show "distinct values" by (simp add: values_eq)
    show "inj_on (\<lambda>v. nat (var_index r c v)) (set values)"
      by (rule inj_onI) (use nat_idx_inj[OF r c _ r c] in blast)
  qed
  from one_of_sum[OF s zo] obtain v where v: "v \<in> set values" "val (nat (var_index r c v)) = 1"
    by auto
  have "\<forall>w\<in>set values. val (nat (var_index r c w)) = 1 \<longrightarrow> w = v"
  proof (intro ballI impI)
    fix w assume w: "w \<in> set values" "val (nat (var_index r c w)) = 1"
    have "nat (var_index r c w) = nat (var_index r c v)"
      by (rule only_one_of_sum[OF s zo d]) (use v w in auto)
    with nat_idx_inj[OF r c w(1) r c v(1)] show "w = v" by simp
  qed
  with v show ?thesis by blast
qed

lemma cell_value_of_one:
  assumes f: "feasible puzzle val" and r: "r \<in> set rows" and c: "c \<in> set cols"
    and v: "v \<in> set values" "val (nat (var_index r c v)) = 1"
  shows "cell_value val r c = v"
  unfolding cell_value_def
proof (rule fold_pick_only)
  fix w assume w: "w \<in> set values" "hit val r c w"
  then have "val (nat (var_index r c w)) = 1" using hit_iff[OF f r c] by simp
  with cell_unique[OF f r c] v w(1) show "w = v" by blast
next
  show "v \<in> set values \<and> hit val r c v \<or> 0 = v"
    using v hit_iff[OF f r c v(1)] by simp
qed

lemma cell_value_in_values:
  assumes f: "feasible puzzle val" and r: "r \<in> set rows" and c: "c \<in> set cols"
  shows "cell_value val r c \<in> set values"
  using cell_unique[OF f r c] cell_value_of_one[OF f r c] by auto

lemma row_has_value:
  assumes f: "feasible puzzle val" and r: "r \<in> set rows" and v: "v \<in> set values"
  shows "\<exists>c\<in>set cols. cell_value val r c = v"
proof -
  let ?xs = "map (\<lambda>c. nat (var_index r c v)) cols"
  have "SumEq ?xs 1 \<in> set row_family"
    using r v by (auto simp: row_family_def)
  then have s: "sum_list (map val ?xs) = 1" by (intro feasible_holds[OF f]) simp
  have zo: "\<And>x. x \<in> set ?xs \<Longrightarrow> val x = 0 \<or> val x = 1"
    using feasible_01[OF f r _ v] by auto
  from one_of_sum[OF s zo] obtain c where "c \<in> set cols" "val (nat (var_index r c v)) = 1"
    by auto
  with cell_value_of_one[OF f r _ v] show ?thesis by blast
qed

lemma col_has_value:
  assumes f: "feasible puzzle val" and c: "c \<in> set cols" and v: "v \<in> set values"
  shows "\<exists>r\<in>set rows. cell_value val r c = v"
proof -
  let ?xs = "map (\<lambda>r. nat (var_index r c v)) rows"
  have "SumEq ?xs 1 \<in> set col_family"
    using c v by (auto simp: col_family_def)
  then have s: "sum_list (map val ?xs) = 1" by (intro feasible_holds[OF f]) simp
  have zo: "\<And>x. x \<in> set ?xs \<Longrightarrow> val x = 0 \<or> val x = 1"
    using feasible_01[OF f _ c v] by auto
  from one_of_sum[OF s zo] obtain r where "r \<in> set rows" "val (nat (var_index r c v)) = 1"
    by auto
  with cell_value_of_one[OF f _ c v] show ?thesis by blast
qed

lemma block_has_value:
  assumes f: "feasible puzzle val"
    and o: "br \<in> set (py_range 0 n block)" "bc \<in> set (py_range 0 n block)"
    and v: "v \<in> set values"
  shows "\<exists>(r, c)\<in>set (block_cells br bc). cell_value val r c = v"
proof -
  let ?xs = "map (\<lambda>(r, c). nat (var_index r c v)) (block_cells br bc)"
  have "SumEq ?xs 1 \<in> set block_family"
    using o v by (auto simp: block_family_def)
  then have s: "sum_list (map val ?xs) = 1" by (intro feasible_holds[OF f]) simp
  have zo: "\<And>x. x \<in> set ?xs \<Longrightarrow> val x = 0 \<or> val x = 1"
    using feasible_01[OF f _ _ v] in_block_cells[OF o] by auto
  from one_of_sum[OF s zo] obtain r c where
    rc: "(r, c) \<in> set (block_cells br bc)" "val (nat (var_index r c v)) = 1"
    by auto
  from in_block_cells[OF o rc(1)] have "r \<in> set rows" "c \<in> set cols" by simp_all
  from cell_value_of_one[OF f this v rc(2)] rc(1) show ?thesis by blast
qed

lemma given_kept:
  assumes f: "feasible puzzle val" and g: "is_grid puzzle" and e: "entries_in 0 9 puzzle"
    and r: "r \<in> set rows" and c: "c \<in> set cols" and nz: "entry puzzle r c \<noteq> 0"
  shows "cell_value val r c = entry puzzle r c"
proof -
  have v: "entry puzzle r c \<in> set values"
    using entries_in_nth[OF g e r c] nz by (simp add: in_values entry_def)
  have "SumEq [nat (var_index r c (entry puzzle r c))] 1 \<in> set (given_family puzzle)"
    using r c nz by (auto simp: given_family_def entry_def)
  then have "sum_list (map val [nat (var_index r c (entry puzzle r c))]) = 1"
    by (intro feasible_holds[OF f]) simp
  then have "val (nat (var_index r c (entry puzzle r c))) = 1" by simp
  from cell_value_of_one[OF f r c v this] show ?thesis .
qed

subsection \<open>Counting the constraints\<close>

lemma length_block_cells: "length (block_cells br bc) = 9"
  by (simp add: block_cells_def py_range_unit block_def)

lemma length_families:
  "length cell_family = 81" "length row_family = 81" "length col_family = 81"
  "length block_family = 81"
  by (simp_all add: cell_family_def row_family_def col_family_def block_family_def
      rows_list cols_list values_list origins_eq)

lemma shape_families:
  "list_all (\<lambda>e. length (lhs e) = 9 \<and> rhs e = 1) cell_family"
  "list_all (\<lambda>e. length (lhs e) = 9 \<and> rhs e = 1) row_family"
  "list_all (\<lambda>e. length (lhs e) = 9 \<and> rhs e = 1) col_family"
  "list_all (\<lambda>e. length (lhs e) = 9 \<and> rhs e = 1) block_family"
  by (auto simp: cell_family_def row_family_def col_family_def block_family_def
      list_all_iff values_eq rows_eq cols_eq length_block_cells)

lemma shape_given: "list_all (\<lambda>e. length (lhs e) = 1 \<and> rhs e = 1) (given_family puzzle)"
  by (auto simp: given_family_def list_all_iff)

lemma length_filter_map_if:
  "length (concat (map (\<lambda>c. if Q (f c) then [e c] else []) cs)) = length (filter Q (map f cs))"
  by (induction cs) simp_all

lemma length_filter_concat_if:
  "length (concat (map (\<lambda>r. concat (map (\<lambda>c. if Q (f r c) then [e r c] else []) cs)) rs))
   = length (filter Q (concat (map (\<lambda>r. map (f r) cs) rs)))"
  by (induction rs) (simp_all add: length_filter_map_if)

lemma grid_as_map:
  assumes "is_grid g"
  shows "g = map (\<lambda>r. map (\<lambda>c. g ! nat r ! nat c) cols) rows"
proof (rule grid_eqI[OF assms])
  show "is_grid (map (\<lambda>r. map (\<lambda>c. g ! nat r ! nat c) cols) rows)"
    by (simp add: is_grid_def list_all_iff rows_eq cols_eq)
next
  fix r c assume "r \<in> set rows" "c \<in> set cols"
  then show "entry g r c = entry (map (\<lambda>r. map (\<lambda>c. g ! nat r ! nat c) cols) rows) r c"
    using nat_rows[of r] nat_cols[of c]
    by (simp add: entry_def rows_eq cols_eq in_rows[unfolded rows_eq] in_cols[unfolded cols_eq])
qed

lemma length_given_family:
  assumes "is_grid puzzle"
  shows "length (given_family puzzle) = length (filter (\<lambda>e. e \<noteq> 0) (concat puzzle))"
proof -
  have "length (given_family puzzle)
        = length (filter (\<lambda>e. e \<noteq> 0)
            (concat (map (\<lambda>r. map (\<lambda>c. puzzle ! nat r ! nat c) cols) rows)))"
    unfolding given_family_def by (rule length_filter_concat_if)
  with grid_as_map[OF assms] show ?thesis by simp
qed

lemma classic_is_puzzle: "is_grid classic_puzzle" "entries_in 0 9 classic_puzzle"
  by (simp_all add: is_grid_def entries_in_def classic_puzzle_def)

subsection \<open>The value a cell receives\<close>

lemma fold_pick_mem:
  "\<exists>v\<in>set vs. hit val r c v \<Longrightarrow> fold (pick val r c) vs acc \<in> set vs"
proof (induction vs arbitrary: acc)
  case Nil
  then show ?case by simp
next
  case (Cons w ws)
  show ?case
  proof (cases "\<exists>v\<in>set ws. hit val r c v")
    case True
    from Cons.IH[OF this] show ?thesis by simp
  next
    case False
    then have "\<And>u. u \<in> set ws \<Longrightarrow> \<not> hit val r c u" by blast
    then have "fold (pick val r c) ws (pick val r c w acc) = pick val r c w acc"
      by (rule fold_pick_none)
    moreover have "hit val r c w" using Cons.prems False by auto
    then have "pick val r c w acc = w" by (simp add: pick_hit)
    ultimately show ?thesis by simp
  qed
qed

lemma values_split:
  assumes "v \<in> set values"
  shows "values = [1..v - 1] @ v # [v + 1..9]"
  using assms unfolding values_eq by (simp add: upto_split3)

lemma cell_value_last:
  assumes v: "v \<in> set values" and h: "hit val r c v"
    and l: "\<And>w. w \<in> set values \<Longrightarrow> v < w \<Longrightarrow> \<not> hit val r c w"
  shows "cell_value val r c = v"
proof -
  have nh: "\<not> hit val r c w" if "w \<in> set [v + 1..9]" for w
    using that l[of w] v by (auto simp: in_values)
  have "fold (pick val r c) ([1..v - 1] @ v # [v + 1..9]) 0 = v"
    by (rule fold_pick_last[OF h nh])
  then show ?thesis
    unfolding cell_value_def by (subst values_split[OF v])
qed

lemma cell_value_none:
  "(\<And>w. w \<in> set values \<Longrightarrow> \<not> hit val r c w) \<Longrightarrow> cell_value val r c = 0"
  unfolding cell_value_def by (rule fold_pick_none)

lemma two_hits_hit:
  assumes "r \<in> set rows" "c \<in> set cols" "v \<in> set values"
  shows "hit two_hits r c v \<longleftrightarrow> r = 0 \<and> c = 0 \<and> (v = 1 \<or> v = 2)"
proof -
  have b: "0 \<le> c" "c < 9" "1 \<le> v" "v \<le> 9"
    using assms by (simp_all add: in_cols in_values)
  have "0 \<le> var_index r c v" using var_index_range[of r c v] assms
    by (simp add: in_rows in_cols in_values)
  then have "nat (var_index r c v) = 0 \<or> nat (var_index r c v) = 1
             \<longleftrightarrow> var_index r c v = 0 \<or> var_index r c v = 1"
    by auto
  also have "\<dots> \<longleftrightarrow> var_index r c v = var_index 0 0 1 \<or> var_index r c v = var_index 0 0 2"
    by (simp add: var_index_def n_def)
  also have "\<dots> \<longleftrightarrow> r = 0 \<and> c = 0 \<and> (v = 1 \<or> v = 2)"
    using var_index_inj[OF b, of 0 1 r 0] var_index_inj[OF b, of 0 2 r 0] by auto
  finally show ?thesis by (simp add: hit_def two_hits_def)
qed

lemma two_hits_cell:
  assumes r: "r \<in> set rows" and c: "c \<in> set cols"
  shows "cell_value two_hits r c = (if r = 0 \<and> c = 0 then 2 else 0)"
proof (cases "r = 0 \<and> c = 0")
  case True
  have "cell_value two_hits r c = 2"
    by (rule cell_value_last) (use True two_hits_hit[OF r c] in \<open>auto simp: in_values\<close>)
  with True show ?thesis by simp
next
  case False
  have "cell_value two_hits r c = 0"
    by (rule cell_value_none) (use False two_hits_hit[OF r c] in auto)
  with False show ?thesis by simp
qed

lemma two_hits_grid_list:
  "two_hits_grid = [[2, 0, 0, 0, 0, 0, 0, 0, 0], [0, 0, 0, 0, 0, 0, 0, 0, 0],
     [0, 0, 0, 0, 0, 0, 0, 0, 0], [0, 0, 0, 0, 0, 0, 0, 0, 0], [0, 0, 0, 0, 0, 0, 0, 0, 0],
     [0, 0, 0, 0, 0, 0, 0, 0, 0], [0, 0, 0, 0, 0, 0, 0, 0, 0], [0, 0, 0, 0, 0, 0, 0, 0, 0],
     [0, 0, 0, 0, 0, 0, 0, 0, 0]]"
  by (simp add: two_hits_grid_def eval_nat_numeral)

lemma extracted_two_hits: "extracted two_hits = two_hits_grid"
proof -
  have "extracted two_hits
        = map (\<lambda>r. map (\<lambda>c. if r = 0 \<and> c = 0 then 2 else 0) cols) rows"
    unfolding extracted_def by (simp add: two_hits_cell cong: map_cong)
  also have "\<dots> = two_hits_grid"
    by (simp add: rows_list cols_list two_hits_grid_list)
  finally show ?thesis .
qed

subsection \<open>The assignment that encodes a grid\<close>

lemma indicator_at:
  assumes r: "r \<in> set rows" and c: "c \<in> set cols" and v: "v \<in> set values"
  shows "indicator g (nat (var_index r c v)) = (if entry g r c = v then 1 else 0)"
proof -
  let ?i = "nat (var_index r c v)"
  have b: "0 \<le> r" "r < 9" "0 \<le> c" "c < 9" "1 \<le> v" "v \<le> 9"
    using r c v by (simp_all add: in_rows in_cols in_values)
  have i: "int ?i = var_index r c v" using var_index_range[OF b] by simp
  have "int (?i div 81) = var_index r c v div 81" by (simp only: zdiv_int i) simp
  then have d1: "?i div 81 = nat r" using var_index_decode(1)[OF b(3-6), of r] by simp
  have "int (?i mod 81 div 9) = var_index r c v mod 81 div 9"
    by (simp only: zdiv_int zmod_int i) simp
  then have d2: "?i mod 81 div 9 = nat c" using var_index_decode(2)[OF b(3-6), of r] by simp
  have "int (?i mod 9) = var_index r c v mod 9" by (simp only: zmod_int i) simp
  then have d3: "int (?i mod 9) + 1 = v" using var_index_decode(3)[OF b(3-6), of r] by simp
  show ?thesis unfolding indicator_def d1 d2 d3 by (simp add: entry_def)
qed

lemma entries_in_values:
  "is_grid g \<Longrightarrow> entries_in 1 9 g \<Longrightarrow> r \<in> set rows \<Longrightarrow> c \<in> set cols \<Longrightarrow>
   entry g r c \<in> set values"
  using entries_in_nth[of g 1 9 r c] by (simp add: in_values entry_def)

lemma cell_value_encoded:
  assumes g: "is_grid g" "entries_in 1 9 g" and r: "r \<in> set rows" and c: "c \<in> set cols"
    and enc: "\<And>v. v \<in> set values \<Longrightarrow>
                val (nat (var_index r c v)) = (if entry g r c = v then 1 else 0)"
  shows "cell_value val r c = entry g r c"
  unfolding cell_value_def
proof (rule fold_pick_only)
  fix w assume "w \<in> set values" "hit val r c w"
  then show "w = entry g r c" using enc[of w] by (auto simp: hit_def split: if_splits)
next
  have "hit val r c (entry g r c)"
    using enc[OF entries_in_values[OF g r c]] by (simp add: hit_def)
  then show "entry g r c \<in> set values \<and> hit val r c (entry g r c) \<or> 0 = entry g r c"
    using entries_in_values[OF g r c] by simp
qed

lemma extracted_encoded:
  assumes g: "is_grid g" "entries_in 1 9 g"
    and enc: "\<And>r c v. r \<in> set rows \<Longrightarrow> c \<in> set cols \<Longrightarrow> v \<in> set values \<Longrightarrow>
                val (nat (var_index r c v)) = (if entry g r c = v then 1 else 0)"
  shows "extracted val = g"
  by (rule grid_eqI[OF is_grid_extracted g(1)])
     (simp add: entry_extracted cell_value_encoded[OF g _ _ enc])

lemma extracted_indicator: "is_grid g \<Longrightarrow> entries_in 1 9 g \<Longrightarrow> extracted (indicator g) = g"
  by (rule extracted_encoded) (simp_all add: indicator_at)

lemma classic_solution_grid: "is_grid classic_solution" "entries_in 1 9 classic_solution"
  by (simp_all add: is_grid_def entries_in_def classic_solution_def)

lemma build_model_vars: "build_model puzzle = Inr (x, h) \<Longrightarrow> x = [0..<729]"
  by (auto simp: build_model_def addBinaries_eq split: sum.splits)

lemma solve_sudoku_eq:
  assumes "build_model puzzle = Inr (x, h)"
  shows "solve_sudoku run puzzle =
         (if fst (run h) \<noteq> kOptimal then Inr None else Inr (Some (extracted (snd (run h)))))"
  using assms build_model_vars[OF assms]
  by (simp add: solve_sudoku_def extract_solution_eq split: prod.splits)

lemma entries_extracted:
  assumes "\<And>r c. r \<in> set rows \<Longrightarrow> c \<in> set cols \<Longrightarrow> \<exists>v\<in>set values. hit val r c v"
  shows "entries_in 1 9 (extracted val)"
proof -
  have "cell_value val r c \<in> set values" if "r \<in> set rows" "c \<in> set cols" for r c
    unfolding cell_value_def by (rule fold_pick_mem) (rule assms[OF that])
  then show ?thesis
    by (auto simp: entries_in_def extracted_def list_all_iff in_values)
qed

lemma classic_build:
  "build_model classic_puzzle =
     Inr ([0..<729],
          \<lparr>num_binaries = 729,
           constrs = cell_family @ row_family @ col_family @ block_family
                     @ given_family classic_puzzle\<rparr>)"
  by (rule build_model_eq) (rule classic_is_puzzle)+

subsection \<open>The validator and permutations\<close>

lemma entry_range:
  "is_grid g \<Longrightarrow> entries_in lo hi g \<Longrightarrow> r \<in> set rows \<Longrightarrow> c \<in> set cols \<Longrightarrow>
   lo \<le> entry g r c \<and> entry g r c \<le> hi"
  unfolding entry_def by (rule entries_in_nth)

lemma row_of_map:
  assumes "is_grid g" "r \<in> set rows"
  shows "row_of g r = map (\<lambda>c. entry g r c) cols"
proof (rule nth_equalityI)
  show "length (row_of g r) = length (map (\<lambda>c. entry g r c) cols)"
    using is_grid_row[OF assms] by (simp add: row_of_def cols_eq)
next
  fix i assume "i < length (row_of g r)"
  then have "i < 9" using is_grid_row[OF assms] by (simp add: row_of_def)
  then show "row_of g r ! i = map (\<lambda>c. entry g r c) cols ! i"
    by (simp add: row_of_def cols_eq entry_def)
qed

lemma group_shapes:
  assumes g: "is_grid g" and e: "entries_in lo hi g"
  shows "r \<in> set rows \<Longrightarrow> length (row_of g r) = 9"
    and "r \<in> set rows \<Longrightarrow> x \<in> set (row_of g r) \<Longrightarrow> lo \<le> x \<and> x \<le> hi"
    and "length (col_of g c) = 9"
    and "c \<in> set cols \<Longrightarrow> x \<in> set (col_of g c) \<Longrightarrow> lo \<le> x \<and> x \<le> hi"
    and "length (block_of g br bc) = 9"
    and "(br, bc) \<in> set block_origins \<Longrightarrow> x \<in> set (block_of g br bc) \<Longrightarrow>
         lo \<le> x \<and> x \<le> hi"
proof -
  show "length (row_of g r) = 9" if "r \<in> set rows"
    using is_grid_row[OF g that] by (simp add: row_of_def)
  show "lo \<le> x \<and> x \<le> hi" if "r \<in> set rows" "x \<in> set (row_of g r)"
    using that entry_range[OF g e that(1)] by (auto simp: row_of_map[OF g that(1)])
  show "length (col_of g c) = 9" by (simp add: col_of_def rows_eq)
  show "lo \<le> x \<and> x \<le> hi" if "c \<in> set cols" "x \<in> set (col_of g c)"
    using that entry_range[OF g e _ that(1)] by (auto simp: col_of_def)
  show "length (block_of g br bc) = 9" by (simp add: block_of_def length_block_cells)
  show "lo \<le> x \<and> x \<le> hi" if "(br, bc) \<in> set block_origins" "x \<in> set (block_of g br bc)"
  proof -
    from that(1) have o: "br \<in> set (py_range 0 n block)" "bc \<in> set (py_range 0 n block)"
      by (simp_all add: block_origins_def)
    from that(2) obtain r c where rc: "(r, c) \<in> set (block_cells br bc)" "x = entry g r c"
      by (auto simp: block_of_def)
    from in_block_cells[OF o rc(1)] entry_range[OF g e] rc(2) show ?thesis by simp
  qed
qed

lemma group_ok_iff_perm:
  assumes "length g = 9" "\<And>x. x \<in> set g \<Longrightarrow> 0 \<le> x \<and> x \<le> 9"
  shows "group_ok g \<longleftrightarrow> perm_1_9 g"
  using group_ok_perm[OF assms] perm_group_ok by blast

lemma validate_all_groups_perm:
  assumes g: "is_grid g" and e: "entries_in 0 9 g"
  shows "validate_sudoku g = Inr (all_groups_perm g)"
proof -
  have r: "list_all (\<lambda>r. group_ok (row_of g r)) rows
           \<longleftrightarrow> (\<forall>r\<in>set rows. perm_1_9 (row_of g r))"
    using group_ok_iff_perm[OF group_shapes(1,2)[OF g e]] by (simp add: list_all_iff)
  have c: "list_all (\<lambda>c. group_ok (col_of g c)) cols
           \<longleftrightarrow> (\<forall>c\<in>set cols. perm_1_9 (col_of g c))"
    using group_ok_iff_perm[OF group_shapes(3,4)[OF g e]] by (simp add: list_all_iff)
  have b: "list_all (\<lambda>(br, bc). group_ok (block_of g br bc)) block_origins
           \<longleftrightarrow> (\<forall>(br, bc)\<in>set block_origins. perm_1_9 (block_of g br bc))"
    using group_ok_iff_perm[OF group_shapes(5,6)[OF g e]] by (auto simp: list_all_iff)
  show ?thesis
    unfolding validate_sudoku_eq[OF g] all_groups_perm_def r c b by simp
qed

lemma perm_entries:
  assumes g: "is_grid g" and p: "\<And>r. r \<in> set rows \<Longrightarrow> perm_1_9 (row_of g r)"
  shows "entries_in 1 9 g"
proof -
  have "1 \<le> x \<and> x \<le> 9" if "row \<in> set g" "x \<in> set row" for row x
  proof -
    from that(1) obtain i where i: "i < length g" "row = g ! i" by (auto simp: in_set_conv_nth)
    then have "int i \<in> set rows" using g by (simp add: is_grid_def in_rows)
    from p[OF this] i(2) that(2) show ?thesis by (simp add: perm_1_9_def row_of_def)
  qed
  then show ?thesis by (auto simp: entries_in_def list_all_iff)
qed

lemma entries_in_mono:
  "entries_in lo hi g \<Longrightarrow> lo' \<le> lo \<Longrightarrow> hi \<le> hi' \<Longrightarrow> entries_in lo' hi' g"
  by (fastforce simp: entries_in_def list_all_iff)

lemma classic_solution_valid: "validate_sudoku classic_solution = Inr True"
  by code_simp

lemma shifted_valid: "validate_sudoku shifted_solution = Inr True"
  by code_simp

subsection \<open>From a 0/1 point to a solved grid, and back\<close>

lemma row_of_extracted:
  "r \<in> set rows \<Longrightarrow> row_of (extracted val) r = map (\<lambda>c. cell_value val r c) cols"
  using row_of_map[OF is_grid_extracted, of r val]
  by (simp add: entry_extracted cong: map_cong)

lemma col_of_extracted:
  "c \<in> set cols \<Longrightarrow> col_of (extracted val) c = map (\<lambda>r. cell_value val r c) rows"
  by (simp add: col_of_def entry_extracted cong: map_cong)

lemma block_of_extracted:
  assumes "br \<in> set (py_range 0 n block)" "bc \<in> set (py_range 0 n block)"
  shows "block_of (extracted val) br bc
         = map (\<lambda>(r, c). cell_value val r c) (block_cells br bc)"
  unfolding block_of_def
  by (rule map_cong) (use in_block_cells[OF assms] in \<open>auto simp: entry_extracted\<close>)

lemma feasible_groups:
  assumes f: "feasible puzzle val"
  shows "all_groups_perm (extracted val)"
  unfolding all_groups_perm_def
proof (intro conjI ballI)
  fix r assume r: "r \<in> set rows"
  show "perm_1_9 (row_of (extracted val) r)"
  proof (rule perm_by_cover)
    show "length (row_of (extracted val) r) = 9"
      by (simp add: row_of_extracted[OF r] cols_eq)
    show "{1..9} \<subseteq> set (row_of (extracted val) r)"
    proof
      fix v :: int assume "v \<in> {1..9}"
      then have "v \<in> set values" by (simp add: in_values)
      from row_has_value[OF f r this] show "v \<in> set (row_of (extracted val) r)"
        by (auto simp: row_of_extracted[OF r])
    qed
  qed
next
  fix c assume c: "c \<in> set cols"
  show "perm_1_9 (col_of (extracted val) c)"
  proof (rule perm_by_cover)
    show "length (col_of (extracted val) c) = 9"
      by (simp add: col_of_def rows_eq)
    show "{1..9} \<subseteq> set (col_of (extracted val) c)"
    proof
      fix v :: int assume "v \<in> {1..9}"
      then have "v \<in> set values" by (simp add: in_values)
      from col_has_value[OF f c this] show "v \<in> set (col_of (extracted val) c)"
        by (auto simp: col_of_extracted[OF c])
    qed
  qed
next
  fix k assume k: "k \<in> set block_origins"
  obtain br bc where kk: "k = (br, bc)" by (cases k)
  from k kk have o: "br \<in> set (py_range 0 n block)" "bc \<in> set (py_range 0 n block)"
    by (simp_all add: block_origins_def)
  have "perm_1_9 (block_of (extracted val) br bc)"
  proof (rule perm_by_cover)
    show "length (block_of (extracted val) br bc) = 9"
      by (simp add: block_of_def length_block_cells)
    show "{1..9} \<subseteq> set (block_of (extracted val) br bc)"
    proof
      fix v :: int assume "v \<in> {1..9}"
      then have "v \<in> set values" by (simp add: in_values)
      from block_has_value[OF f o this]
      show "v \<in> set (block_of (extracted val) br bc)"
        by (force simp: block_of_extracted[OF o])
    qed
  qed
  then show "case k of (br, bc) \<Rightarrow> perm_1_9 (block_of (extracted val) br bc)"
    by (simp add: kk)
qed

lemma feasible_valid:
  assumes f: "feasible puzzle val"
  shows "validate_sudoku (extracted val) = Inr True"
proof -
  have g: "is_grid (extracted val)" by (rule is_grid_extracted)
  have p: "all_groups_perm (extracted val)" by (rule feasible_groups[OF f])
  have "entries_in 1 9 (extracted val)"
    by (rule perm_entries[OF g]) (use p in \<open>simp add: all_groups_perm_def\<close>)
  then have "entries_in 0 9 (extracted val)" by (rule entries_in_mono) simp_all
  from validate_all_groups_perm[OF g this] p show ?thesis by simp
qed

lemma sum_if_one:
  "distinct (map f ks) \<Longrightarrow> v \<in> set (map f ks) \<Longrightarrow>
   sum_list (map (\<lambda>k. if f k = v then (1::real) else 0) ks) = 1"
proof (induction ks)
  case Nil
  then show ?case by simp
next
  case (Cons k ks)
  show ?case
  proof (cases "f k = v")
    case True
    have "f j \<noteq> v" if "j \<in> set ks" for j
    proof
      assume "f j = v"
      with that True have "f k \<in> f ` set ks" by (metis image_eqI)
      with Cons.prems(1) show False by simp
    qed
    then have "sum_list (map (\<lambda>k. if f k = v then (1::real) else 0) ks) = 0"
      by (intro sum_list_zero) simp
    with True show ?thesis by simp
  next
    case False
    with Cons show ?thesis by simp
  qed
qed

lemma holds_indicator:
  assumes "distinct (map f ks)" "v \<in> set (map f ks)"
    and "\<And>k. k \<in> set ks \<Longrightarrow> indicator g (i k) = (if f k = v then 1 else 0)"
  shows "holds (indicator g) (SumEq (map i ks) 1)"
proof -
  have "map (indicator g) (map i ks) = map (\<lambda>k. if f k = v then 1 else 0) ks"
    using assms(3) by simp
  with sum_if_one[OF assms(1,2)] show ?thesis by (simp add: holds_def del: map_map)
qed

lemma feasible_indicator:
  assumes g: "is_grid g" and p: "all_groups_perm g" and pz: "is_grid puzzle"
    and k: "\<And>r c. r \<in> set rows \<Longrightarrow> c \<in> set cols \<Longrightarrow> entry puzzle r c \<noteq> 0 \<Longrightarrow>
              entry g r c = entry puzzle r c"
  shows "feasible puzzle (indicator g)"
proof -
  have en: "entries_in 1 9 g"
    by (rule perm_entries[OF g]) (use p in \<open>simp add: all_groups_perm_def\<close>)
  have pr: "perm_1_9 (map (\<lambda>c. entry g r c) cols)" if "r \<in> set rows" for r
  proof -
    from p that have "perm_1_9 (row_of g r)" by (simp add: all_groups_perm_def)
    then show ?thesis by (simp only: row_of_map[OF g that])
  qed
  have pc: "perm_1_9 (map (\<lambda>r. entry g r c) rows)" if "c \<in> set cols" for c
    using p that by (simp add: all_groups_perm_def col_of_def)
  have pb: "perm_1_9 (map (\<lambda>(r, c). entry g r c) (block_cells br bc))"
    if "br \<in> set (py_range 0 n block)" "bc \<in> set (py_range 0 n block)" for br bc
    using p that by (force simp: all_groups_perm_def block_of_def block_origins_def)
  have c1: "holds (indicator g) e" if "e \<in> set cell_family" for e
  proof -
    from that obtain r c where rc: "r \<in> set rows" "c \<in> set cols"
      and e: "e = SumEq (map (\<lambda>v. nat (var_index r c v)) values) 1"
      by (auto simp: cell_family_def)
    show ?thesis unfolding e
    proof (rule holds_indicator[where f = "\<lambda>v. v" and v = "entry g r c"])
      show "distinct (map (\<lambda>v. v) values)" by (simp add: values_eq)
      show "entry g r c \<in> set (map (\<lambda>v. v) values)"
        using entries_in_values[OF g en rc] by simp
      show "indicator g (nat (var_index r c v)) = (if v = entry g r c then 1 else 0)"
        if "v \<in> set values" for v
        using indicator_at[OF rc that, of g] by auto
    qed
  qed
  have c2: "holds (indicator g) e" if "e \<in> set row_family" for e
  proof -
    from that obtain r v where rv: "r \<in> set rows" "v \<in> set values"
      and e: "e = SumEq (map (\<lambda>c. nat (var_index r c v)) cols) 1"
      by (auto simp: row_family_def)
    show ?thesis unfolding e
    proof (rule holds_indicator[where f = "\<lambda>c. entry g r c" and v = v])
      show "distinct (map (\<lambda>c. entry g r c) cols)"
        "v \<in> set (map (\<lambda>c. entry g r c) cols)"
        using pr[OF rv(1)] rv(2) by (simp_all add: perm_1_9_def in_values)
      show "indicator g (nat (var_index r c v)) = (if entry g r c = v then 1 else 0)"
        if "c \<in> set cols" for c
        by (rule indicator_at[OF rv(1) that rv(2)])
    qed
  qed
  have c3: "holds (indicator g) e" if "e \<in> set col_family" for e
  proof -
    from that obtain c v where cv: "c \<in> set cols" "v \<in> set values"
      and e: "e = SumEq (map (\<lambda>r. nat (var_index r c v)) rows) 1"
      by (auto simp: col_family_def)
    show ?thesis unfolding e
    proof (rule holds_indicator[where f = "\<lambda>r. entry g r c" and v = v])
      show "distinct (map (\<lambda>r. entry g r c) rows)"
        "v \<in> set (map (\<lambda>r. entry g r c) rows)"
        using pc[OF cv(1)] cv(2) by (simp_all add: perm_1_9_def in_values)
      show "indicator g (nat (var_index r c v)) = (if entry g r c = v then 1 else 0)"
        if "r \<in> set rows" for r
        by (rule indicator_at[OF that cv])
    qed
  qed
  have c4: "holds (indicator g) e" if "e \<in> set block_family" for e
  proof -
    from that obtain br bc v where
      o: "br \<in> set (py_range 0 n block)" "bc \<in> set (py_range 0 n block)"
      and v: "v \<in> set values"
      and e: "e = SumEq (map (\<lambda>(r, c). nat (var_index r c v)) (block_cells br bc)) 1"
      by (auto simp: block_family_def)
    show ?thesis unfolding e
    proof (rule holds_indicator[where f = "\<lambda>(r, c). entry g r c" and v = v])
      show "distinct (map (\<lambda>(r, c). entry g r c) (block_cells br bc))"
        "v \<in> set (map (\<lambda>(r, c). entry g r c) (block_cells br bc))"
        using pb[OF o] v by (simp_all add: perm_1_9_def in_values)
      show "indicator g (case k of (r, c) \<Rightarrow> nat (var_index r c v))
            = (if (case k of (r, c) \<Rightarrow> entry g r c) = v then 1 else 0)"
        if "k \<in> set (block_cells br bc)" for k
      proof -
        obtain r c where kk: "k = (r, c)" by (cases k)
        from in_block_cells[OF o that[unfolded kk]] indicator_at[of r c v g] v
        show ?thesis by (simp add: kk)
      qed
    qed
  qed
  have c5: "holds (indicator g) e" if "e \<in> set (given_family puzzle)" for e
  proof -
    from that obtain r c where rc: "r \<in> set rows" "c \<in> set cols"
      and nz: "entry puzzle r c \<noteq> 0"
      and e: "e = SumEq [nat (var_index r c (entry puzzle r c))] 1"
      by (auto simp: given_family_def entry_def split: if_splits)
    have "entry g r c = entry puzzle r c" by (rule k[OF rc nz])
    moreover have "entry g r c \<in> set values" by (rule entries_in_values[OF g en rc])
    ultimately have "indicator g (nat (var_index r c (entry puzzle r c))) = 1"
      using indicator_at[OF rc, of "entry puzzle r c" g] by simp
    then show ?thesis by (simp add: e holds_def)
  qed
  show ?thesis
    unfolding feasible_def using c1 c2 c3 c4 c5 by (auto simp: indicator_def)
qed

lemma classic_groups: "all_groups_perm classic_solution"
proof -
  have "entries_in 0 9 classic_solution"
    by (rule entries_in_mono[OF classic_solution_grid(2)]) simp_all
  from validate_all_groups_perm[OF classic_solution_grid(1) this] classic_solution_valid
  show ?thesis by simp
qed

lemma classic_agree:
  "r \<in> set rows \<Longrightarrow> c \<in> set cols \<Longrightarrow> entry classic_puzzle r c \<noteq> 0 \<Longrightarrow>
   entry classic_solution r c = entry classic_puzzle r c"
  unfolding rows_list cols_list
  by (auto simp: entry_def classic_puzzle_def classic_solution_def)

lemma classic_feasible: "feasible classic_puzzle (indicator classic_solution)"
  by (rule feasible_indicator[OF classic_solution_grid(1) classic_groups classic_is_puzzle(1)])
     (rule classic_agree)

subsection \<open>Counting on any 9x9 grid\<close>

lemma for_each_count:
  assumes step: "\<And>k h h'. k \<in> set ks \<Longrightarrow> body k h = Inr h' \<Longrightarrow>
      num_binaries h' = num_binaries h \<and> length (constrs h') = length (constrs h) + w k"
  shows "for_each ks body h = Inr h' \<Longrightarrow>
      num_binaries h' = num_binaries h
      \<and> length (constrs h') = length (constrs h) + sum_list (map w ks)"
  using step
proof (induction ks arbitrary: h)
  case Nil
  then show ?case by simp
next
  case (Cons k ks)
  from Cons.prems(1) obtain h1 where h1: "body k h = Inr h1" "for_each ks body h1 = Inr h'"
    by (auto split: sum.splits)
  from Cons.prems(2)[OF _ h1(1)] have a: "num_binaries h1 = num_binaries h"
    "length (constrs h1) = length (constrs h) + w k" by simp_all
  have "num_binaries h' = num_binaries h1
      \<and> length (constrs h') = length (constrs h1) + sum_list (map w ks)"
    by (rule Cons.IH[OF h1(2)]) (rule Cons.prems(2), simp_all)
  with a show ?case by simp
qed

lemma given_body_count:
  assumes g: "is_grid puzzle" and r: "r \<in> set rows" and c: "c \<in> set cols"
    and b: "(case py_index puzzle r of
            Inl e \<Rightarrow> Inl e
          | Inr row \<Rightarrow>
              (case py_index row c of
                 Inl e \<Rightarrow> Inl e
               | Inr val \<Rightarrow>
                   if val \<noteq> 0 then
                     (case py_index x (var_index r c val) of
                        Inl e \<Rightarrow> Inl e
                      | Inr xv \<Rightarrow> Inr (addConstr (SumEq [xv] 1) h))
                   else Inr h)) = Inr h'"
  shows "num_binaries h' = num_binaries h
     \<and> length (constrs h') = length (constrs h)
         + (if puzzle ! nat r ! nat c \<noteq> 0 then 1 else 0)"
  using b
  by (auto simp: is_grid_nth[OF g r] is_grid_cell[OF g r c] addConstr_def
      split: sum.splits if_splits)

lemma length_given_family_sum:
  "length (given_family puzzle)
   = sum_list (map (\<lambda>r. sum_list (map (\<lambda>c. if puzzle ! nat r ! nat c \<noteq> 0 then 1 else 0) cols))
       rows)"
proof -
  have "length (concat (map (\<lambda>c. if P c then [e c] else []) cs))
        = sum_list (map (\<lambda>c. if P c then 1 else 0) cs)" for P :: "int \<Rightarrow> bool"
    and e :: "int \<Rightarrow> linear_eq" and cs
    by (induction cs) simp_all
  then show ?thesis
    by (simp add: given_family_def length_concat o_def)
qed

lemma add_given_constrs_count:
  assumes g: "is_grid puzzle" and a: "add_given_constrs puzzle x h = Inr h'"
  shows "num_binaries h' = num_binaries h
     \<and> length (constrs h') = length (constrs h) + length (given_family puzzle)"
  unfolding length_given_family_sum
  using a unfolding add_given_constrs_def
proof (rule for_each_count[rotated])
  fix r h1 h2
  assume r: "r \<in> set rows"
  assume "for_each cols (\<lambda>c h.
       case py_index puzzle r of
         Inl e \<Rightarrow> Inl e
       | Inr row \<Rightarrow>
           (case py_index row c of
              Inl e \<Rightarrow> Inl e
            | Inr val \<Rightarrow>
                if val \<noteq> 0 then
                  (case py_index x (var_index r c val) of
                     Inl e \<Rightarrow> Inl e
                   | Inr xv \<Rightarrow> Inr (addConstr (SumEq [xv] 1) h))
                else Inr h)) h1 = Inr h2"
  then show "num_binaries h2 = num_binaries h1 \<and>
       length (constrs h2) = length (constrs h1)
         + sum_list (map (\<lambda>c. if puzzle ! nat r ! nat c \<noteq> 0 then 1 else 0) cols)"
    by (rule for_each_count[rotated]) (rule given_body_count[OF g r])
qed

lemma build_model_any:
  assumes g: "is_grid puzzle" and b: "build_model puzzle = Inr (x, h)"
  shows "x = [0..<729] \<and> num_binaries h = 729
     \<and> length (constrs h) = 324 + length (filter (\<lambda>e. e \<noteq> 0) (concat puzzle))"
proof -
  let ?h4 = "\<lparr>num_binaries = 729,
              constrs = cell_family @ row_family @ col_family @ block_family\<rparr>"
  from b have x: "x = [0..<729]" by (rule build_model_vars)
  from b have "add_given_constrs puzzle [0..<729] ?h4 = Inr h"
    by (simp add: build_model_def addBinaries_eq add_cell_constrs_eq add_row_constrs_eq
        add_col_constrs_eq add_block_constrs_eq split: sum.splits)
  from add_given_constrs_count[OF g this] x show ?thesis
    by (simp add: length_families length_given_family[OF g])
qed

section \<open>The claims\<close>

text \<open>
  C1. The index \<open>var_index r c v = r * 81 + c * 9 + (v - 1)\<close> is a bijection from the
  triples with \<open>r\<close>, \<open>c\<close> in \<open>[0, 9)\<close> and \<open>v\<close> in \<open>[1, 9]\<close> onto \<open>[0, 729)\<close>: every
  index is in \<open>[0, 729)\<close>, distinct triples have distinct indices, and the triple is
  recovered from the index \<open>i\<close> as \<open>(i div 81, i mod 81 div 9, i mod 9 + 1)\<close>.
\<close>

theorem var_index_bijection:
  "bij_betw (\<lambda>(r, c, v). var_index r c v) ({0..<9} \<times> {0..<9} \<times> {1..9}) {0..<729}
   \<and> (\<forall>r\<in>{0..<9}. \<forall>c\<in>{0..<9}. \<forall>v\<in>{1..9}.
         0 \<le> var_index r c v \<and> var_index r c v < 729
         \<and> var_index r c v div 81 = r \<and> var_index r c v mod 81 div 9 = c
         \<and> var_index r c v mod 9 + 1 = v
         \<and> (\<forall>r'\<in>{0..<9}. \<forall>c'\<in>{0..<9}. \<forall>v'\<in>{1..9}.
               var_index r c v = var_index r' c' v' \<longrightarrow> r = r' \<and> c = c' \<and> v = v'))
   \<and> (\<forall>i\<in>{0..<729}.
         i div 81 \<in> {0..<9} \<and> i mod 81 div 9 \<in> {0..<9} \<and> i mod 9 + 1 \<in> {1..9}
         \<and> var_index (i div 81) (i mod 81 div 9) (i mod 9 + 1) = i)"
proof (intro conjI ballI impI)
  let ?D = "{0..<9} \<times> {0..<9} \<times> {1..9::int}"
  let ?f = "\<lambda>(r, c, v). var_index r c v"
  have "inj_on ?f ?D"
  proof (rule inj_onI)
    fix p q assume p: "p \<in> ?D" and q: "q \<in> ?D" and e: "?f p = ?f q"
    obtain r c v where pp: "p = (r, c, v)" by (rule prod_cases3)
    obtain r' c' v' where qq: "q = (r', c', v')" by (rule prod_cases3)
    from p pp have b: "0 \<le> c" "c < 9" "1 \<le> v" "v \<le> 9" by simp_all
    from q qq have b': "0 \<le> c'" "c' < 9" "1 \<le> v'" "v' \<le> 9" by simp_all
    from e have "var_index r c v = var_index r' c' v'" by (simp add: pp qq)
    from var_index_inj[OF b b' this] show "p = q" by (simp add: pp qq)
  qed
  moreover have "?f ` ?D = {0..<729}"
  proof (rule set_eqI, rule iffI)
    fix i assume "i \<in> ?f ` ?D"
    then obtain p where i: "i = ?f p" and p: "p \<in> ?D" by (rule imageE)
    obtain r c v where pp: "p = (r, c, v)" by (rule prod_cases3)
    from p pp have b: "0 \<le> r" "r < 9" "0 \<le> c" "c < 9" "1 \<le> v" "v \<le> 9" by simp_all
    from var_index_range[OF b] show "i \<in> {0..<729}" by (simp add: i pp)
  next
    fix i :: int assume "i \<in> {0..<729}"
    then have i: "0 \<le> i" "i < 729" by simp_all
    have m: "(i div 81, i mod 81 div 9, i mod 9 + 1) \<in> ?D"
      using var_index_encode(1-6)[OF i] by simp
    have "i = ?f (i div 81, i mod 81 div 9, i mod 9 + 1)"
      using var_index_encode(7)[OF i] by simp
    then show "i \<in> ?f ` ?D" using m by (rule image_eqI)
  qed
  ultimately show "bij_betw ?f ?D {0..<729}" unfolding bij_betw_def by (rule conjI)
next
  fix r c v :: int
  assume "r \<in> {0..<9}" "c \<in> {0..<9}" "v \<in> {1..9}"
  then have b: "0 \<le> r" "r < 9" "0 \<le> c" "c < 9" "1 \<le> v" "v \<le> 9" by simp_all
  show "0 \<le> var_index r c v" "var_index r c v < 729"
    using var_index_range[OF b] by simp_all
  show "var_index r c v div 81 = r" "var_index r c v mod 81 div 9 = c"
    "var_index r c v mod 9 + 1 = v"
    by (rule var_index_decode[OF b(3-6)])+
  fix r' c' v' :: int
  assume "r' \<in> {0..<9}" "c' \<in> {0..<9}" "v' \<in> {1..9}"
  then have b': "0 \<le> c'" "c' < 9" "1 \<le> v'" "v' \<le> 9" by simp_all
  assume e: "var_index r c v = var_index r' c' v'"
  from var_index_inj[OF b(3-6) b' e] show "r = r'" "c = c'" "v = v'" by simp_all
next
  fix i :: int
  assume "i \<in> {0..<729}"
  then have i: "0 \<le> i" "i < 729" by simp_all
  show "i div 81 \<in> {0..<9}" "i mod 81 div 9 \<in> {0..<9}" "i mod 9 + 1 \<in> {1..9}"
    using var_index_encode(1-6)[OF i] by simp_all
  show "var_index (i div 81) (i mod 81 div 9) (i mod 9 + 1) = i"
    by (rule var_index_encode(7)[OF i])
qed

theorem var_index_bijection_witness:
  "(4::int) \<in> {0..<9} \<and> (7::int) \<in> {0..<9} \<and> (3::int) \<in> {1..9}
   \<and> var_index 4 7 3 = 389 \<and> (389::int) \<in> {0..<729}
   \<and> var_index 4 7 3 div 81 = 4 \<and> var_index 4 7 3 mod 81 div 9 = 7
   \<and> var_index 4 7 3 mod 9 + 1 = 3
   \<and> var_index (389 div 81) (389 mod 81 div 9) (389 mod 9 + 1) = 389"
proof -
  have h: "(4::int) \<in> {0..<9}" "(7::int) \<in> {0..<9}" "(3::int) \<in> {1..9}"
    "(389::int) \<in> {0..<729}"
    by simp_all
  have e: "var_index 4 7 3 = 389" by (simp add: var_index_def n_def)
  from var_index_bijection have
    a: "\<forall>r\<in>{0..<9}. \<forall>c\<in>{0..<9}. \<forall>v\<in>{1..9}.
         0 \<le> var_index r c v \<and> var_index r c v < 729
         \<and> var_index r c v div 81 = r \<and> var_index r c v mod 81 div 9 = c
         \<and> var_index r c v mod 9 + 1 = v
         \<and> (\<forall>r'\<in>{0..<9}. \<forall>c'\<in>{0..<9}. \<forall>v'\<in>{1..9}.
               var_index r c v = var_index r' c' v' \<longrightarrow> r = r' \<and> c = c' \<and> v = v')"
    and b: "\<forall>i\<in>{0..<729}.
         i div 81 \<in> {0..<9} \<and> i mod 81 div 9 \<in> {0..<9} \<and> i mod 9 + 1 \<in> {1..9}
         \<and> var_index (i div 81) (i mod 81 div 9) (i mod 9 + 1) = i"
    by blast+
  from a h(1-3) have "var_index 4 7 3 div 81 = 4 \<and> var_index 4 7 3 mod 81 div 9 = 7
   \<and> var_index 4 7 3 mod 9 + 1 = 3" by blast
  moreover from b h(4) have
    "var_index (389 div 81) (389 mod 81 div 9) (389 mod 9 + 1) = 389" by blast
  ultimately show ?thesis using h e by blast
qed

text \<open>
  C5. For every puzzle (a 9x9 grid with entries in \<open>[0, 9]\<close>) the builder completes,
  creates exactly 729 binary variables, and emits the 81 cell, 81 row, 81 column and 81
  block constraints, each the sum of 9 variables equal to 1, followed by one constraint
  \<open>variable == 1\<close> for each non-zero cell of the puzzle: 324 constraints plus the number of
  non-zero cells. The counts hold for every 9x9 integer grid on which the builder
  completes.
\<close>

theorem builder_constraint_count:
  assumes "is_grid puzzle"
  shows "(entries_in 0 9 puzzle \<longrightarrow>
          (\<exists>x h. build_model puzzle = Inr (x, h)
           \<and> length x = 729 \<and> num_binaries h = 729
           \<and> constrs h = cell_family @ row_family @ col_family @ block_family
                          @ given_family puzzle
           \<and> length cell_family = 81 \<and> length row_family = 81
           \<and> length col_family = 81 \<and> length block_family = 81
           \<and> list_all (\<lambda>e. length (lhs e) = 9 \<and> rhs e = 1)
                (cell_family @ row_family @ col_family @ block_family)
           \<and> length (given_family puzzle) = length (filter (\<lambda>e. e \<noteq> 0) (concat puzzle))
           \<and> list_all (\<lambda>e. length (lhs e) = 1 \<and> rhs e = 1) (given_family puzzle)
           \<and> length (constrs h) = 324 + length (filter (\<lambda>e. e \<noteq> 0) (concat puzzle))))
     \<and> (\<forall>x h. build_model puzzle = Inr (x, h) \<longrightarrow>
           length x = 729 \<and> num_binaries h = 729
           \<and> length (constrs h) = 324 + length (filter (\<lambda>e. e \<noteq> 0) (concat puzzle)))"
proof (intro conjI impI allI)
  assume e: "entries_in 0 9 puzzle"
  show "\<exists>x h. build_model puzzle = Inr (x, h)
           \<and> length x = 729 \<and> num_binaries h = 729
           \<and> constrs h = cell_family @ row_family @ col_family @ block_family
                          @ given_family puzzle
           \<and> length cell_family = 81 \<and> length row_family = 81
           \<and> length col_family = 81 \<and> length block_family = 81
           \<and> list_all (\<lambda>e. length (lhs e) = 9 \<and> rhs e = 1)
                (cell_family @ row_family @ col_family @ block_family)
           \<and> length (given_family puzzle) = length (filter (\<lambda>e. e \<noteq> 0) (concat puzzle))
           \<and> list_all (\<lambda>e. length (lhs e) = 1 \<and> rhs e = 1) (given_family puzzle)
           \<and> length (constrs h) = 324 + length (filter (\<lambda>e. e \<noteq> 0) (concat puzzle))"
    using build_model_eq[OF assms e] length_families shape_families shape_given[of puzzle]
      length_given_family[OF assms]
    by simp
next
  fix x h assume "build_model puzzle = Inr (x, h)"
  from build_model_any[OF assms this]
  show "length x = 729" "num_binaries h = 729"
    "length (constrs h) = 324 + length (filter (\<lambda>e. e \<noteq> 0) (concat puzzle))"
    by simp_all
qed

theorem builder_constraint_count_witness:
  "is_grid classic_puzzle \<and> entries_in 0 9 classic_puzzle
   \<and> length (filter (\<lambda>e. e \<noteq> 0) (concat classic_puzzle)) = 30
   \<and> (\<exists>x h. build_model classic_puzzle = Inr (x, h) \<and> num_binaries h = 729
          \<and> length (constrs h) = 354)"
proof -
  have c: "length (filter (\<lambda>e. e \<noteq> 0) (concat classic_puzzle)) = 30"
    by (simp add: classic_puzzle_def)
  from builder_constraint_count[OF classic_is_puzzle(1)] classic_is_puzzle(2)
  have "\<exists>x h. build_model classic_puzzle = Inr (x, h) \<and> num_binaries h = 729
          \<and> length (constrs h) = 324 + length (filter (\<lambda>e. e \<noteq> 0) (concat classic_puzzle))"
    by blast
  with c classic_is_puzzle show ?thesis by simp
qed

text \<open>
  C10. When every entry of the 9x9 puzzle lies in \<open>[0, 9]\<close>, the index the given-fixing
  step computes for a non-zero cell is in \<open>[0, 729)\<close> and the step completes without an
  \<open>IndexError\<close>. Without that precondition the guarantee fails: for the puzzle with the
  value 10 in cell (8, 8) the index is 729, the subscript raises \<open>IndexError\<close>, and so
  does the builder.
\<close>

theorem given_index_bounds:
  "(\<forall>puzzle. is_grid puzzle \<and> entries_in 0 9 puzzle \<longrightarrow>
      (\<forall>r\<in>set rows. \<forall>c\<in>set cols. entry puzzle r c \<noteq> 0 \<longrightarrow>
          0 \<le> var_index r c (entry puzzle r c) \<and> var_index r c (entry puzzle r c) < 729)
      \<and> (\<forall>h. \<exists>h'. add_given_constrs puzzle [0..<729] h = Inr h'))
   \<and> is_grid ten_puzzle \<and> \<not> entries_in 0 9 ten_puzzle \<and> entry ten_puzzle 8 8 = 10
   \<and> var_index 8 8 (entry ten_puzzle 8 8) = 729
   \<and> (\<forall>h. add_given_constrs ten_puzzle [0..<729] h = Inl IndexError)
   \<and> build_model ten_puzzle = Inl IndexError"
proof (intro conjI allI impI ballI)
  fix puzzle r c
  assume p: "is_grid puzzle \<and> entries_in 0 9 puzzle"
    and r: "r \<in> set rows" and c: "c \<in> set cols" and nz: "entry puzzle r c \<noteq> 0"
  from p have g: "is_grid puzzle" and e: "entries_in 0 9 puzzle" by simp_all
  have "1 \<le> entry puzzle r c" "entry puzzle r c \<le> 9"
    using entries_in_nth[OF g e r c] nz by (simp_all add: entry_def)
  with r c have "0 \<le> var_index r c (entry puzzle r c)
      \<and> var_index r c (entry puzzle r c) < 729"
    by (intro var_index_range) (simp_all add: in_rows in_cols)
  then show "0 \<le> var_index r c (entry puzzle r c)" "var_index r c (entry puzzle r c) < 729"
    by simp_all
next
  fix puzzle h
  assume p: "is_grid puzzle \<and> entries_in 0 9 puzzle"
  then show "\<exists>h'. add_given_constrs puzzle [0..<729] h = Inr h'"
    by (simp add: add_given_constrs_eq)
next
  show "is_grid ten_puzzle" "\<not> entries_in 0 9 ten_puzzle" "entry ten_puzzle 8 8 = 10"
    using ten_props by simp_all
  then show "var_index 8 8 (entry ten_puzzle 8 8) = 729"
    by (simp add: var_index_def n_def)
next
  fix h show "add_given_constrs ten_puzzle [0..<729] h = Inl IndexError" by (rule ten_given)
next
  show "build_model ten_puzzle = Inl IndexError" by (rule ten_build)
qed

theorem given_index_bounds_witness:
  "is_grid classic_puzzle \<and> entries_in 0 9 classic_puzzle
   \<and> 0 \<in> set rows \<and> 1 \<in> set cols \<and> entry classic_puzzle 0 1 = 3
   \<and> 0 \<le> var_index 0 1 (entry classic_puzzle 0 1)
   \<and> var_index 0 1 (entry classic_puzzle 0 1) < 729
   \<and> (\<exists>h'. add_given_constrs classic_puzzle [0..<729] Highs = Inr h')"
proof -
  have m: "0 \<in> set rows" "1 \<in> set cols" by (simp_all add: in_rows in_cols)
  have e: "entry classic_puzzle 0 1 = 3" by (simp add: entry_def classic_puzzle_def)
  then have nz: "entry classic_puzzle 0 1 \<noteq> 0" by simp
  have p: "is_grid classic_puzzle \<and> entries_in 0 9 classic_puzzle"
    using classic_is_puzzle by simp
  from given_index_bounds have
    "(\<forall>r\<in>set rows. \<forall>c\<in>set cols. entry classic_puzzle r c \<noteq> 0 \<longrightarrow>
          0 \<le> var_index r c (entry classic_puzzle r c)
          \<and> var_index r c (entry classic_puzzle r c) < 729)
      \<and> (\<forall>h. \<exists>h'. add_given_constrs classic_puzzle [0..<729] h = Inr h')"
    using p by blast
  with m nz have "0 \<le> var_index 0 1 (entry classic_puzzle 0 1)
      \<and> var_index 0 1 (entry classic_puzzle 0 1) < 729
      \<and> (\<exists>h'. add_given_constrs classic_puzzle [0..<729] Highs = Inr h')"
    by blast
  with p m e show ?thesis by simp
qed

text \<open>
  C3, as the code has it. The loop over \<open>v\<close> has no \<open>break\<close>: every \<open>v\<close> whose value
  exceeds 0.5 in absolute value overwrites the cell, so after the scan in increasing
  order the cell holds the last, that is the largest, such \<open>v\<close>, and 0 when there is
  none.
\<close>

theorem extraction_takes_last_match:
  "\<exists>solution. extract_solution [0..<729] val = Inr solution \<and> is_grid solution \<and>
     (\<forall>r\<in>set rows. \<forall>c\<in>set cols.
        (\<forall>v\<in>set values.
           \<bar>val (nat (var_index r c v))\<bar> > 0.5
           \<and> (\<forall>w\<in>set values. v < w \<longrightarrow> \<not> \<bar>val (nat (var_index r c w))\<bar> > 0.5)
           \<longrightarrow> entry solution r c = v)
        \<and> ((\<forall>v\<in>set values. \<not> \<bar>val (nat (var_index r c v))\<bar> > 0.5)
             \<longrightarrow> entry solution r c = 0))"
proof (intro exI conjI ballI impI)
  show "extract_solution [0..<729] val = Inr (extracted val)" by (rule extract_solution_eq)
  show "is_grid (extracted val)" by (rule is_grid_extracted)
next
  fix r c v
  assume r: "r \<in> set rows" and c: "c \<in> set cols" and v: "v \<in> set values"
    and h: "\<bar>val (nat (var_index r c v))\<bar> > 0.5
           \<and> (\<forall>w\<in>set values. v < w \<longrightarrow> \<not> \<bar>val (nat (var_index r c w))\<bar> > 0.5)"
  have "cell_value val r c = v"
    by (rule cell_value_last[OF v]) (use h in \<open>simp_all add: hit_def\<close>)
  then show "entry (extracted val) r c = v" by (simp add: entry_extracted[OF r c])
next
  fix r c
  assume r: "r \<in> set rows" and c: "c \<in> set cols"
    and h: "\<forall>v\<in>set values. \<not> \<bar>val (nat (var_index r c v))\<bar> > 0.5"
  have "cell_value val r c = 0"
    by (rule cell_value_none) (use h in \<open>simp add: hit_def\<close>)
  then show "entry (extracted val) r c = 0" by (simp add: entry_extracted[OF r c])
qed

text \<open>
  C3 as stated (the first, smallest such \<open>v\<close> is the cell's value) fails: when the
  variables of the values 1 and 2 of cell (0, 0) both exceed the threshold, the
  extraction returns a grid whose cell (0, 0) is 2.
\<close>

theorem first_match_counterexample:
  "\<bar>two_hits (nat (var_index 0 0 1))\<bar> > 0.5 \<and> \<bar>two_hits (nat (var_index 0 0 2))\<bar> > 0.5
   \<and> extract_solution [0..<729] two_hits = Inr two_hits_grid
   \<and> entry two_hits_grid 0 0 = 2 \<and> entry two_hits_grid 0 0 \<noteq> 1"
  by (simp add: extract_solution_eq extracted_two_hits)
     (simp add: two_hits_def var_index_def n_def entry_def two_hits_grid_def)

theorem extraction_takes_last_match_witness:
  "0 \<in> set rows \<and> 0 \<in> set cols \<and> 2 \<in> set values
   \<and> \<bar>two_hits (nat (var_index 0 0 2))\<bar> > 0.5
   \<and> \<not> (\<exists>w\<in>set values. 2 < w \<and> \<bar>two_hits (nat (var_index 0 0 w))\<bar> > 0.5)
   \<and> (\<exists>solution. extract_solution [0..<729] two_hits = Inr solution
         \<and> entry solution 0 0 = 2)"
proof -
  have m: "0 \<in> set rows" "0 \<in> set cols" "2 \<in> set values"
    by (simp_all add: in_rows in_cols in_values)
  have h1: "hit two_hits 0 0 2" using two_hits_hit[OF m] by simp
  have h2: "\<forall>w\<in>set values. 2 < w \<longrightarrow> \<not> hit two_hits 0 0 w"
    using two_hits_hit[OF m(1,2)] by auto
  have h: "\<bar>two_hits (nat (var_index 0 0 2))\<bar> > 0.5
     \<and> (\<forall>w\<in>set values. 2 < w \<longrightarrow> \<not> \<bar>two_hits (nat (var_index 0 0 w))\<bar> > 0.5)"
    using h1 h2 unfolding hit_def by (rule conjI)
  from extraction_takes_last_match[of two_hits] obtain solution where
    s: "extract_solution [0..<729] two_hits = Inr solution"
    and a: "\<forall>r\<in>set rows. \<forall>c\<in>set cols.
        (\<forall>v\<in>set values.
           \<bar>two_hits (nat (var_index r c v))\<bar> > 0.5
           \<and> (\<forall>w\<in>set values. v < w \<longrightarrow> \<not> \<bar>two_hits (nat (var_index r c w))\<bar> > 0.5)
           \<longrightarrow> entry solution r c = v)
        \<and> ((\<forall>v\<in>set values. \<not> \<bar>two_hits (nat (var_index r c v))\<bar> > 0.5)
             \<longrightarrow> entry solution r c = 0)"
    by blast
  from a m h have "entry solution 0 0 = 2" by blast
  with s m h show ?thesis by blast
qed

text \<open>
  C6. Round trip: for a completed grid (9x9, entries in \<open>[1, 9]\<close>) and solver values
  in which variable \<open>var_index r c v\<close> is 1 if the grid holds \<open>v\<close> in cell \<open>(r, c)\<close> and 0
  otherwise, the extraction returns exactly that grid.
\<close>

theorem extraction_round_trip:
  assumes "is_grid grid" "entries_in 1 9 grid"
    and "\<forall>r\<in>set rows. \<forall>c\<in>set cols. \<forall>v\<in>set values.
           val (nat (var_index r c v)) = (if entry grid r c = v then 1 else 0)"
  shows "extract_solution [0..<729] val = Inr grid"
  using extracted_encoded[OF assms(1,2), of val] assms(3) by (simp add: extract_solution_eq)

theorem extraction_round_trip_witness:
  "is_grid classic_solution \<and> entries_in 1 9 classic_solution
   \<and> list_all (\<lambda>r. list_all (\<lambda>c. list_all (\<lambda>v.
         indicator classic_solution (nat (var_index r c v))
         = (if entry classic_solution r c = v then 1 else 0)) values) cols) rows
   \<and> extract_solution [0..<729] (indicator classic_solution) = Inr classic_solution"
proof -
  have e: "\<forall>r\<in>set rows. \<forall>c\<in>set cols. \<forall>v\<in>set values.
         indicator classic_solution (nat (var_index r c v))
         = (if entry classic_solution r c = v then 1 else 0)"
    by (simp add: indicator_at)
  from extraction_round_trip[OF classic_solution_grid e] classic_solution_grid e
  show ?thesis by (simp add: list_all_iff)
qed

text \<open>
  C8. When the solver reports \<open>kOptimal\<close> and for every cell exactly one \<open>v\<close> in
  \<open>[1, 9]\<close> has a value above the 0.5 threshold, \<open>solve_sudoku\<close> returns the extracted
  grid, which is 9x9 with every entry in \<open>[1, 9]\<close>: no zero entry.
\<close>

theorem extraction_fully_populated:
  assumes "build_model puzzle = Inr (x, h)" "run h = (kOptimal, val)"
    and "\<forall>r\<in>set rows. \<forall>c\<in>set cols.
           \<exists>!v. v \<in> set values \<and> \<bar>val (nat (var_index r c v))\<bar> > 0.5"
  shows "\<exists>solution. solve_sudoku run puzzle = Inr (Some solution)
           \<and> extract_solution x val = Inr solution
           \<and> is_grid solution \<and> entries_in 1 9 solution
           \<and> 0 \<notin> set (concat solution)"
proof -
  have h: "\<exists>v\<in>set values. hit val r c v" if "r \<in> set rows" "c \<in> set cols" for r c
    using assms(3) that unfolding hit_def by blast
  have e: "entries_in 1 9 (extracted val)" by (rule entries_extracted) (rule h)
  then have "0 \<notin> set (concat (extracted val))"
    by (fastforce simp: entries_in_def list_all_iff)
  with e show ?thesis
    using solve_sudoku_eq[OF assms(1), of run] build_model_vars[OF assms(1)] assms(2)
    by (simp add: extract_solution_eq is_grid_extracted)
qed

theorem extraction_fully_populated_witness:
  "build_model classic_puzzle =
     Inr ([0..<729],
          \<lparr>num_binaries = 729,
           constrs = cell_family @ row_family @ col_family @ block_family
                     @ given_family classic_puzzle\<rparr>)
   \<and> list_all (\<lambda>r. list_all (\<lambda>c.
         \<exists>!v. v \<in> set values \<and> \<bar>indicator classic_solution (nat (var_index r c v))\<bar> > 0.5)
           cols) rows
   \<and> solve_sudoku classic_run classic_puzzle = Inr (Some classic_solution)
   \<and> is_grid classic_solution \<and> 0 \<notin> set (concat classic_solution)"
proof -
  have u: "\<forall>r\<in>set rows. \<forall>c\<in>set cols.
         \<exists>!v. v \<in> set values \<and> \<bar>indicator classic_solution (nat (var_index r c v))\<bar> > 0.5"
  proof (intro ballI)
    fix r c assume rc: "r \<in> set rows" "c \<in> set cols"
    have "v \<in> set values \<and> \<bar>indicator classic_solution (nat (var_index r c v))\<bar> > 0.5
          \<longleftrightarrow> v = entry classic_solution r c" for v
      using indicator_at[OF rc, of v classic_solution]
        entries_in_values[OF classic_solution_grid rc]
      by (cases "v \<in> set values") auto
    then show "\<exists>!v. v \<in> set values
                 \<and> \<bar>indicator classic_solution (nat (var_index r c v))\<bar> > 0.5"
      by simp
  qed
  have r: "classic_run \<lparr>num_binaries = 729,
           constrs = cell_family @ row_family @ col_family @ block_family
                     @ given_family classic_puzzle\<rparr> = (kOptimal, indicator classic_solution)"
    by (simp add: classic_run_def)
  from extraction_fully_populated[where run = classic_run
      and val = "indicator classic_solution", OF classic_build r u] obtain solution where
    s: "solve_sudoku classic_run classic_puzzle = Inr (Some solution)"
    "extract_solution [0..<729] (indicator classic_solution) = Inr solution"
    "is_grid solution" "0 \<notin> set (concat solution)"
    by blast
  from s(2) have "solution = classic_solution"
    by (simp add: extract_solution_eq extracted_indicator[OF classic_solution_grid])
  with s classic_build u show ?thesis by (simp add: list_all_iff)
qed

text \<open>
  C7. \<open>solve_sudoku\<close> returns a grid only when the status the solver reports is
  \<open>kOptimal\<close>; for every other status it returns \<open>None\<close>; and with \<open>kOptimal\<close> it does
  return a 9x9 grid.
\<close>

theorem solve_status_gate:
  "(\<forall>solution. solve_sudoku run puzzle = Inr (Some solution) \<longrightarrow>
      (\<exists>x h. build_model puzzle = Inr (x, h) \<and> fst (run h) = kOptimal) \<and> is_grid solution)
   \<and> (\<forall>x h. build_model puzzle = Inr (x, h) \<and> fst (run h) \<noteq> kOptimal \<longrightarrow>
         solve_sudoku run puzzle = Inr None)
   \<and> (\<forall>x h. build_model puzzle = Inr (x, h) \<and> fst (run h) = kOptimal \<longrightarrow>
         (\<exists>solution. solve_sudoku run puzzle = Inr (Some solution)))"
proof (intro conjI allI impI)
  fix solution assume s: "solve_sudoku run puzzle = Inr (Some solution)"
  then obtain x h where b: "build_model puzzle = Inr (x, h)"
    by (auto simp: solve_sudoku_def split: sum.splits)
  from s solve_sudoku_eq[OF b, of run]
  have "fst (run h) = kOptimal" "solution = extracted (snd (run h))"
    by (auto split: if_splits)
  with b show "\<exists>x h. build_model puzzle = Inr (x, h) \<and> fst (run h) = kOptimal"
    and "is_grid solution"
    by (auto simp: is_grid_extracted)
next
  fix x h assume "build_model puzzle = Inr (x, h) \<and> fst (run h) \<noteq> kOptimal"
  then show "solve_sudoku run puzzle = Inr None" by (simp add: solve_sudoku_eq)
next
  fix x h assume "build_model puzzle = Inr (x, h) \<and> fst (run h) = kOptimal"
  then show "\<exists>solution. solve_sudoku run puzzle = Inr (Some solution)"
    by (simp add: solve_sudoku_eq)
qed

theorem solve_status_gate_witness:
  "(\<exists>x h. build_model classic_puzzle = Inr (x, h) \<and> fst (infeasible_run h) \<noteq> kOptimal)
   \<and> solve_sudoku infeasible_run classic_puzzle = Inr None
   \<and> (\<exists>x h. build_model classic_puzzle = Inr (x, h) \<and> fst (classic_run h) = kOptimal)
   \<and> (\<exists>solution. solve_sudoku classic_run classic_puzzle = Inr (Some solution)
         \<and> is_grid solution)"
proof -
  have i: "\<exists>x h. build_model classic_puzzle = Inr (x, h) \<and> fst (infeasible_run h) \<noteq> kOptimal"
    using classic_build by (simp add: infeasible_run_def)
  have c: "\<exists>x h. build_model classic_puzzle = Inr (x, h) \<and> fst (classic_run h) = kOptimal"
    using classic_build by (simp add: classic_run_def)
  from i solve_status_gate[of infeasible_run classic_puzzle]
  have n: "solve_sudoku infeasible_run classic_puzzle = Inr None" by blast
  from c solve_status_gate[of classic_run classic_puzzle]
  have "\<exists>solution. solve_sudoku classic_run classic_puzzle = Inr (Some solution)
         \<and> is_grid solution" by blast
  with i c n show ?thesis by blast
qed

text \<open>
  C4, as the code has it. For a 9x9 grid with every entry in \<open>[0, 9]\<close>,
  \<open>validate_sudoku\<close> returns true if and only if every row, every column and every 3x3
  block is a permutation of 1..9; for any 9x9 integer grid whose groups are all such
  permutations it returns true; and for a group of 9 integers in \<open>[0, 9]\<close>, having 9
  distinct elements and summing to 45 is equivalent to being exactly the set 1..9 with
  no repeat.
\<close>

theorem validate_iff_permutations:
  "(\<forall>grid. is_grid grid \<and> entries_in 0 9 grid \<longrightarrow>
      validate_sudoku grid =
        Inr ((\<forall>r\<in>set rows. perm_1_9 (row_of grid r))
             \<and> (\<forall>c\<in>set cols. perm_1_9 (col_of grid c))
             \<and> (\<forall>(br, bc)\<in>set block_origins. perm_1_9 (block_of grid br bc))))
   \<and> (\<forall>grid. is_grid grid
         \<and> (\<forall>r\<in>set rows. perm_1_9 (row_of grid r))
         \<and> (\<forall>c\<in>set cols. perm_1_9 (col_of grid c))
         \<and> (\<forall>(br, bc)\<in>set block_origins. perm_1_9 (block_of grid br bc))
         \<longrightarrow> validate_sudoku grid = Inr True)
   \<and> (\<forall>g :: int list. length g = 9 \<and> (\<forall>x\<in>set g. 0 \<le> x \<and> x \<le> 9) \<longrightarrow>
         (int (card (set g)) = 9 \<and> sum_list g = 45 \<longleftrightarrow> distinct g \<and> set g = {1..9}))"
proof (intro conjI allI impI)
  fix grid assume "is_grid grid \<and> entries_in 0 9 grid"
  then show "validate_sudoku grid =
        Inr ((\<forall>r\<in>set rows. perm_1_9 (row_of grid r))
             \<and> (\<forall>c\<in>set cols. perm_1_9 (col_of grid c))
             \<and> (\<forall>(br, bc)\<in>set block_origins. perm_1_9 (block_of grid br bc)))"
    using validate_all_groups_perm[of grid] by (simp add: all_groups_perm_def)
next
  fix grid
  assume a: "is_grid grid
         \<and> (\<forall>r\<in>set rows. perm_1_9 (row_of grid r))
         \<and> (\<forall>c\<in>set cols. perm_1_9 (col_of grid c))
         \<and> (\<forall>(br, bc)\<in>set block_origins. perm_1_9 (block_of grid br bc))"
  then have g: "is_grid grid" and p: "all_groups_perm grid"
    by (simp_all add: all_groups_perm_def)
  have "entries_in 1 9 grid" by (rule perm_entries[OF g]) (use a in simp)
  then have "entries_in 0 9 grid" by (rule entries_in_mono) simp_all
  from validate_all_groups_perm[OF g this] p show "validate_sudoku grid = Inr True" by simp
next
  fix g :: "int list"
  assume "length g = 9 \<and> (\<forall>x\<in>set g. 0 \<le> x \<and> x \<le> 9)"
  then show "int (card (set g)) = 9 \<and> sum_list g = 45 \<longleftrightarrow> distinct g \<and> set g = {1..9}"
    using group_ok_iff_perm[of g] by (simp add: group_ok_def perm_1_9_def)
qed

text \<open>
  C4 as stated, for every 9x9 integer grid, fails: the solved grid with every 1 replaced
  by 0 and every 9 by 10 is accepted, although its first row, with 9 distinct elements
  that sum to 45, holds 0 and 10.
\<close>

theorem validate_accepts_non_permutation:
  "is_grid shifted_solution \<and> validate_sudoku shifted_solution = Inr True
   \<and> row_of shifted_solution 0 = [5, 3, 4, 6, 7, 8, 10, 0, 2]
   \<and> \<not> perm_1_9 (row_of shifted_solution 0)
   \<and> int (card (set [5, 3, 4, 6, 7, 8, 10, 0, 2 :: int])) = 9
   \<and> sum_list [5, 3, 4, 6, 7, 8, 10, 0, 2 :: int] = 45
   \<and> set [5, 3, 4, 6, 7, 8, 10, 0, 2 :: int] \<noteq> {1..9}"
proof -
  have "(0::int) \<in> set [5, 3, 4, 6, 7, 8, 10, 0, 2]" "(0::int) \<notin> {1..9}" by simp_all
  then have ne: "set [5, 3, 4, 6, 7, 8, 10, 0, 2 :: int] \<noteq> {1..9}" by metis
  have r: "row_of shifted_solution 0 = [5, 3, 4, 6, 7, 8, 10, 0, 2]"
    by (simp add: row_of_def shifted_solution_def)
  have "\<not> perm_1_9 (row_of shifted_solution 0)"
    unfolding r perm_1_9_def using ne by simp
  with ne show ?thesis
    by (simp add: shifted_valid) (simp add: is_grid_def row_of_def shifted_solution_def)
qed

theorem validate_iff_permutations_witness:
  "is_grid classic_solution \<and> entries_in 0 9 classic_solution
   \<and> validate_sudoku classic_solution = Inr True
   \<and> all_groups_perm classic_solution
   \<and> length [5, 3, 4, 6, 7, 8, 9, 1, 2 :: int] = 9
   \<and> list_all (\<lambda>x. 0 \<le> x \<and> x \<le> 9) [5, 3, 4, 6, 7, 8, 9, 1, 2 :: int]
   \<and> int (card (set [5, 3, 4, 6, 7, 8, 9, 1, 2 :: int])) = 9
   \<and> sum_list [5, 3, 4, 6, 7, 8, 9, 1, 2 :: int] = 45
   \<and> distinct [5, 3, 4, 6, 7, 8, 9, 1, 2 :: int]
   \<and> set [5, 3, 4, 6, 7, 8, 9, 1, 2 :: int] = {1..9}"
proof -
  have g: "is_grid classic_solution \<and> entries_in 0 9 classic_solution"
    using classic_solution_grid(1) entries_in_mono[OF classic_solution_grid(2), of 0 9]
    by simp
  have l: "length [5, 3, 4, 6, 7, 8, 9, 1, 2 :: int] = 9
     \<and> (\<forall>x\<in>set [5, 3, 4, 6, 7, 8, 9, 1, 2 :: int]. 0 \<le> x \<and> x \<le> 9)" by simp
  have k: "int (card (set [5, 3, 4, 6, 7, 8, 9, 1, 2 :: int])) = 9
        \<and> sum_list [5, 3, 4, 6, 7, 8, 9, 1, 2 :: int] = 45" by simp
  note t = validate_iff_permutations
  from t g have "validate_sudoku classic_solution =
        Inr ((\<forall>r\<in>set rows. perm_1_9 (row_of classic_solution r))
             \<and> (\<forall>c\<in>set cols. perm_1_9 (col_of classic_solution c))
             \<and> (\<forall>(br, bc)\<in>set block_origins. perm_1_9 (block_of classic_solution br bc)))"
    by blast
  with classic_solution_valid have p: "all_groups_perm classic_solution"
    by (simp add: all_groups_perm_def)
  from t l k have d: "distinct [5, 3, 4, 6, 7, 8, 9, 1, 2 :: int]
     \<and> set [5, 3, 4, 6, 7, 8, 9, 1, 2 :: int] = {1..9}"
    by blast
  have l': "list_all (\<lambda>x. 0 \<le> x \<and> x \<le> 9) [5, 3, 4, 6, 7, 8, 9, 1, 2 :: int]" by simp
  from g p l l' k d classic_solution_valid show ?thesis by blast
qed

text \<open>
  C9. For every 9x9 grid with all entries in \<open>[0, 9]\<close>, if any entry is 0 then
  \<open>validate_sudoku\<close> returns false.
\<close>

theorem validate_rejects_zero:
  assumes "is_grid grid" "entries_in 0 9 grid" "0 \<in> set (concat grid)"
  shows "validate_sudoku grid = Inr False"
proof -
  from assms(3) obtain row where row: "row \<in> set grid" "0 \<in> set row" by auto
  then obtain i where i: "i < length grid" "row = grid ! i" by (auto simp: in_set_conv_nth)
  then have r: "int i \<in> set rows" using assms(1) by (simp add: is_grid_def in_rows)
  have "\<not> perm_1_9 (row_of grid (int i))"
    using row(2) i(2) by (auto simp: perm_1_9_def row_of_def)
  with r have "\<not> all_groups_perm grid" by (auto simp: all_groups_perm_def)
  with validate_all_groups_perm[OF assms(1,2)] show ?thesis by simp
qed

theorem validate_rejects_zero_witness:
  "is_grid holed_solution \<and> entries_in 0 9 holed_solution \<and> 0 \<in> set (concat holed_solution)
   \<and> validate_sudoku holed_solution = Inr False"
proof -
  have h: "is_grid holed_solution" "entries_in 0 9 holed_solution"
    "0 \<in> set (concat holed_solution)"
    by (simp_all add: is_grid_def entries_in_def holed_solution_def classic_solution_def)
  from validate_rejects_zero[OF h] h show ?thesis by simp
qed

text \<open>
  C2. For every puzzle (9x9, entries in \<open>[0, 9]\<close>) and every 0/1 assignment to the 729
  variables that satisfies all the constraints the builder emitted, the extraction
  returns a grid that agrees with the puzzle on every non-zero cell, whose rows, columns
  and 3x3 blocks are permutations of 1..9, and on which \<open>validate_sudoku\<close> returns true.
\<close>

theorem feasible_point_is_solution:
  assumes "is_grid puzzle" "entries_in 0 9 puzzle"
    and "build_model puzzle = Inr (x, h)"
    and "\<forall>i<num_binaries h. val i = 0 \<or> val i = 1"
    and "\<forall>e\<in>set (constrs h). holds val e"
  shows "\<exists>solution. extract_solution x val = Inr solution \<and> is_grid solution
           \<and> (\<forall>r\<in>set rows. \<forall>c\<in>set cols.
                 entry puzzle r c \<noteq> 0 \<longrightarrow> entry solution r c = entry puzzle r c)
           \<and> (\<forall>r\<in>set rows. perm_1_9 (row_of solution r))
           \<and> (\<forall>c\<in>set cols. perm_1_9 (col_of solution c))
           \<and> (\<forall>(br, bc)\<in>set block_origins. perm_1_9 (block_of solution br bc))
           \<and> validate_sudoku solution = Inr True"
proof -
  from assms(3) build_model_eq[OF assms(1,2)]
  have x: "x = [0..<729]"
    and h: "h = \<lparr>num_binaries = 729,
               constrs = cell_family @ row_family @ col_family @ block_family
                         @ given_family puzzle\<rparr>"
    by simp_all
  have f: "feasible puzzle val"
    using assms(4,5) by (simp add: feasible_def h)
  have k: "\<forall>r\<in>set rows. \<forall>c\<in>set cols.
             entry puzzle r c \<noteq> 0 \<longrightarrow> entry (extracted val) r c = entry puzzle r c"
    using given_kept[OF f assms(1,2)] by (simp add: entry_extracted)
  from feasible_groups[OF f] feasible_valid[OF f] k show ?thesis
    by (simp add: x extract_solution_eq is_grid_extracted all_groups_perm_def)
qed

theorem feasible_point_is_solution_witness:
  "is_grid classic_puzzle \<and> entries_in 0 9 classic_puzzle
   \<and> build_model classic_puzzle =
       Inr ([0..<729],
            \<lparr>num_binaries = 729,
             constrs = cell_family @ row_family @ col_family @ block_family
                       @ given_family classic_puzzle\<rparr>)
   \<and> feasible classic_puzzle (indicator classic_solution)
   \<and> extract_solution [0..<729] (indicator classic_solution) = Inr classic_solution
   \<and> entry classic_puzzle 0 0 = 5 \<and> entry classic_solution 0 0 = 5
   \<and> all_groups_perm classic_solution
   \<and> validate_sudoku classic_solution = Inr True"
proof -
  let ?h = "\<lparr>num_binaries = 729,
             constrs = cell_family @ row_family @ col_family @ block_family
                       @ given_family classic_puzzle\<rparr>"
  have z: "\<forall>i<num_binaries ?h.
             indicator classic_solution i = 0 \<or> indicator classic_solution i = 1"
    using classic_feasible by (simp add: feasible_def)
  have c: "\<forall>e\<in>set (constrs ?h). holds (indicator classic_solution) e"
    using classic_feasible by (simp add: feasible_def)
  from feasible_point_is_solution[OF classic_is_puzzle classic_build z c]
  obtain solution where
    s: "extract_solution [0..<729] (indicator classic_solution) = Inr solution"
    "\<forall>r\<in>set rows. \<forall>c\<in>set cols.
         entry classic_puzzle r c \<noteq> 0 \<longrightarrow> entry solution r c = entry classic_puzzle r c"
    "all_groups_perm solution"
    "validate_sudoku solution = Inr True"
    unfolding all_groups_perm_def by blast
  from s(1) have e: "solution = classic_solution"
    by (simp add: extract_solution_eq extracted_indicator[OF classic_solution_grid])
  have p: "entry classic_puzzle 0 0 = 5" by (simp add: entry_def classic_puzzle_def)
  have "0 \<in> set rows" "0 \<in> set cols" by (simp_all add: in_rows in_cols)
  with s(2) p have "entry solution 0 0 = 5" by simp
  with s e p classic_is_puzzle classic_build classic_feasible show ?thesis by simp
qed

end
